theory Spec2Isabelle
  imports Main "HOL-Library.Word"
begin

unbundle bit_operations_syntax

section \<open>Strings\<close>

text \<open>
  A JavaScript string is modelled as a \<^typ>\<open>string\<close>: a list of code units below 256
  (ASCII and the Latin-1 supplement). Every character that the validators compare
  against (digits, hexadecimal letters, the dot, the colon, the slash, the brackets, the
  percent sign and the null character) is in that range.
\<close>

definition isDigit :: "char \<Rightarrow> bool" where
  "isDigit c \<longleftrightarrow> 48 \<le> (of_char c :: nat) \<and> (of_char c :: nat) \<le> 57"

definition digitVal :: "char \<Rightarrow> nat" where
  "digitVal c = of_char c - 48"

definition digitChar :: "nat \<Rightarrow> char" where
  "digitChar n = char_of (48 + n)"

text \<open>\<^verbatim>\<open>Number(s)\<close> on a string of decimal digits.\<close>

definition Number :: "string \<Rightarrow> nat" where
  "Number s = foldl (\<lambda>acc c. 10 * acc + digitVal c) 0 s"

text \<open>Template-literal rendering \<^verbatim>\<open>`${n}`\<close> of a non-negative integer: decimal, no leading zero.\<close>

fun numberToString :: "nat \<Rightarrow> string" where
  "numberToString n =
     (if n < 10 then [digitChar n] else numberToString (n div 10) @ [digitChar (n mod 10)])"

declare numberToString.simps [simp del]

text \<open>\<^verbatim>\<open>s.split(sep)\<close> for a one-character separator.\<close>

fun split :: "char \<Rightarrow> string \<Rightarrow> string list" where
  "split sep [] = [[]]"
| "split sep (c # cs) =
     (if c = sep then [] # split sep cs
      else (case split sep cs of
              g # gs \<Rightarrow> (c # g) # gs
            | [] \<Rightarrow> [[c]]))"

text \<open>\<^verbatim>\<open>parts.join(sep)\<close> for a one-character separator.\<close>

fun joinWith :: "char \<Rightarrow> string list \<Rightarrow> string" where
  "joinWith sep [] = []"
| "joinWith sep [g] = g"
| "joinWith sep (g # h # gs) = g @ sep # joinWith sep (h # gs)"

text \<open>\<^verbatim>\<open>s.startsWith(p)\<close>, \<^verbatim>\<open>s.endsWith(p)\<close> and \<^verbatim>\<open>s.includes(p)\<close>.\<close>

definition startsWith :: "string \<Rightarrow> string \<Rightarrow> bool" where
  "startsWith s p \<longleftrightarrow> take (length p) s = p"

definition endsWith :: "string \<Rightarrow> string \<Rightarrow> bool" where
  "endsWith s p \<longleftrightarrow> length p \<le> length s \<and> drop (length s - length p) s = p"

fun includesStr :: "string \<Rightarrow> string \<Rightarrow> bool" where
  "includesStr [] p \<longleftrightarrow> p = []"
| "includesStr (c # cs) p \<longleftrightarrow> startsWith (c # cs) p \<or> includesStr cs p"

text \<open>
  White space and line terminators below 256, which \<^verbatim>\<open>trim\<close> and \<^verbatim>\<open>parseInt\<close>
  strip.
\<close>

definition isWhiteSpace :: "char \<Rightarrow> bool" where
  "isWhiteSpace c \<longleftrightarrow> (of_char c :: nat) \<in> {9, 10, 11, 12, 13, 32, 160}"

definition trim :: "string \<Rightarrow> string" where
  "trim s = rev (dropWhile isWhiteSpace (rev (dropWhile isWhiteSpace s)))"

text \<open>
  A value thrown, or the reason of a rejected promise, by what the handlers of the
  validators can do with it:
  \<^item> an \<^verbatim>\<open>Error\<close> object, with the text that its \<^verbatim>\<open>message\<close> gives in a template
    literal;
  \<^item> an \<^verbatim>\<open>Error\<close> object whose \<^verbatim>\<open>message\<close> gives no text (a symbol, an object whose
    conversion throws, a getter that throws), with what is thrown instead;
  \<^item> a value that is no \<^verbatim>\<open>Error\<close>, with the result of \<^verbatim>\<open>String(value)\<close>;
  \<^item> a value that is no \<^verbatim>\<open>Error\<close> and for which \<^verbatim>\<open>String(value)\<close> throws (an object
    without a conversion to a primitive, such as \<^verbatim>\<open>Object.create(null)\<close>), with what is
    thrown instead.
\<close>

datatype thrown =
    ErrorObject string
  | ErrorWithoutText thrown
  | NonError string
  | Unconvertible thrown

section \<open>IPv4 classification\<close>

record block_decision =
  blocked :: bool
  reason :: "string option"

text \<open>A group \<^verbatim>\<open>\d{1,3}\<close> of the pattern.\<close>

definition digits13 :: "string \<Rightarrow> bool" where
  "digits13 g \<longleftrightarrow> 1 \<le> length g \<and> length g \<le> 3 \<and> list_all isDigit g"

text \<open>
  \<^verbatim>\<open>ip.match(/^(\d{1,3})\.(\d{1,3})\.(\d{1,3})\.(\d{1,3})$/)\<close> followed by
  \<^verbatim>\<open>.map(Number)\<close>: the four captured groups as numbers, or no match. A digit is never a
  dot, so the pattern matches exactly the strings whose split at the dots gives four
  groups of one to three digits.
\<close>

definition ipv4Match :: "string \<Rightarrow> (nat \<times> nat \<times> nat \<times> nat) option" where
  "ipv4Match ip =
     (case split (CHR ''.'') ip of
        [a, b, c, d] \<Rightarrow>
          if digits13 a \<and> digits13 b \<and> digits13 c \<and> digits13 d
          then Some (Number a, Number b, Number c, Number d)
          else None
      | _ \<Rightarrow> None)"

definition isBlockedIPv4 :: "string \<Rightarrow> block_decision" where
  "isBlockedIPv4 ip =
     (case ipv4Match ip of
        None \<Rightarrow> \<lparr>blocked = False, reason = None\<rparr>
      | Some (a, b, c, d) \<Rightarrow>
          if a = 127 then
            \<lparr>blocked = True, reason = Some ''Access to loopback addresses is not allowed''\<rparr>
          else if a = 10 then
            \<lparr>blocked = True,
             reason = Some ''Access to private network (10.x.x.x) is not allowed''\<rparr>
          else if a = 172 \<and> b \<ge> 16 \<and> b \<le> 31 then
            \<lparr>blocked = True,
             reason = Some ''Access to private network (172.16-31.x.x) is not allowed''\<rparr>
          else if a = 192 \<and> b = 168 then
            \<lparr>blocked = True,
             reason = Some ''Access to private network (192.168.x.x) is not allowed''\<rparr>
          else if a = 169 \<and> b = 254 then
            \<lparr>blocked = True,
             reason = Some ''Access to link-local/metadata addresses (169.254.x.x) is not allowed''\<rparr>
          else if a = 0 then
            \<lparr>blocked = True, reason = Some ''Access to 0.x.x.x addresses is not allowed''\<rparr>
          else if a = 100 \<and> b \<ge> 64 \<and> b \<le> 127 then
            \<lparr>blocked = True,
             reason = Some ''Access to shared/CGNAT addresses (100.64-127.x.x) is not allowed''\<rparr>
          else if a = 198 \<and> (b = 18 \<or> b = 19) then
            \<lparr>blocked = True,
             reason = Some ''Access to benchmark addresses (198.18-19.x.x) is not allowed''\<rparr>
          else if a = 255 \<and> b = 255 \<and> c = 255 \<and> d = 255 then
            \<lparr>blocked = True, reason = Some ''Access to broadcast address is not allowed''\<rparr>
          else \<lparr>blocked = False, reason = None\<rparr>)"

subsection \<open>The pattern and the address ranges, as the specification words them\<close>

text \<open>
  The pattern read declaratively: four groups of one to three digits, joined by dots.
\<close>

definition matchesIPv4Pattern :: "string \<Rightarrow> bool" where
  "matchesIPv4Pattern s \<longleftrightarrow>
     (\<exists>a b c d. s = a @ ''.'' @ b @ ''.'' @ c @ ''.'' @ d \<and>
                digits13 a \<and> digits13 b \<and> digits13 c \<and> digits13 d)"

text \<open>
  The number that a group of decimal digits denotes: the digit at position \<open>i\<close> of \<open>n\<close>
  counts \<open>10 ^ (n - 1 - i)\<close> times.
\<close>

definition decimalValue :: "string \<Rightarrow> nat" where
  "decimalValue g = (\<Sum>i < length g. digitVal (g ! i) * 10 ^ (length g - Suc i))"

text \<open>
  The 32-bit value of the address \<open>a.b.c.d\<close>, and membership of a value in the block
  \<open>base/len\<close>: the leading \<open>len\<close> bits agree.
\<close>

definition ipv4Value :: "nat \<Rightarrow> nat \<Rightarrow> nat \<Rightarrow> nat \<Rightarrow> nat" where
  "ipv4Value a b c d = a * 2 ^ 24 + b * 2 ^ 16 + c * 2 ^ 8 + d"

definition inCidr :: "nat \<Rightarrow> nat \<Rightarrow> nat \<Rightarrow> bool" where
  "inCidr x base len \<longleftrightarrow> x div 2 ^ (32 - len) = base div 2 ^ (32 - len)"

definition inBlockedRanges :: "nat \<Rightarrow> bool" where
  "inBlockedRanges x \<longleftrightarrow>
     inCidr x (ipv4Value 127 0 0 0) 8 \<or>
     inCidr x (ipv4Value 10 0 0 0) 8 \<or>
     inCidr x (ipv4Value 172 16 0 0) 12 \<or>
     inCidr x (ipv4Value 192 168 0 0) 16 \<or>
     inCidr x (ipv4Value 169 254 0 0) 16 \<or>
     inCidr x (ipv4Value 0 0 0 0) 8 \<or>
     inCidr x (ipv4Value 100 64 0 0) 10 \<or>
     inCidr x (ipv4Value 198 18 0 0) 15 \<or>
     x = ipv4Value 255 255 255 255"

text \<open>
  The same blocks read on the four numbers of a dotted quad, which also makes sense for
  a group above 255: \<open>a.b.c.d\<close> is in \<open>127.0.0.0/8\<close> when \<open>a\<close> is 127, in
  \<open>172.16.0.0/12\<close> when \<open>a\<close> is 172 and \<open>b\<close> is between 16 and 31, and so on.
\<close>

definition inBlockedOctets :: "nat \<Rightarrow> nat \<Rightarrow> nat \<Rightarrow> nat \<Rightarrow> bool" where
  "inBlockedOctets a b c d \<longleftrightarrow>
     a = 127 \<or> a = 10 \<or> (a = 172 \<and> 16 \<le> b \<and> b \<le> 31) \<or> (a = 192 \<and> b = 168) \<or>
     (a = 169 \<and> b = 254) \<or> a = 0 \<or> (a = 100 \<and> 64 \<le> b \<and> b \<le> 127) \<or>
     (a = 198 \<and> (b = 18 \<or> b = 19)) \<or> (a = 255 \<and> b = 255 \<and> c = 255 \<and> d = 255)"

section \<open>IPv6 classification\<close>

subsection \<open>Platform functions on strings and numbers\<close>

text \<open>
  \<^verbatim>\<open>s.toLowerCase()\<close> on code units below 256: the letters A to Z and the upper-case
  letters of the Latin-1 supplement (192 to 222 without the multiplication sign 215)
  move up by 32, every other character stays.
\<close>

definition toLowerCaseChar :: "char \<Rightarrow> char" where
  "toLowerCaseChar c =
     (let n = (of_char c :: nat)
      in if (65 \<le> n \<and> n \<le> 90) \<or> (192 \<le> n \<and> n \<le> 222 \<and> n \<noteq> 215)
         then char_of (n + 32) else c)"

definition toLowerCase :: "string \<Rightarrow> string" where
  "toLowerCase s = map toLowerCaseChar s"

text \<open>
  A JavaScript number, as far as \<^verbatim>\<open>parseInt\<close> can return one: not-a-number, an
  infinity, or an integer that a double represents.
\<close>

datatype number = NaN | Infinity bool | Num int

definition isNaN :: "number \<Rightarrow> bool" where
  "isNaN x \<longleftrightarrow> x = NaN"

text \<open>The number of binary digits of a natural number.\<close>

fun bitlen :: "nat \<Rightarrow> nat" where
  "bitlen n = (if n = 0 then 0 else Suc (bitlen (n div 2)))"

declare bitlen.simps [simp del]

text \<open>
  The double nearest to a natural number, ties to the even significand of 53 bits; from
  \<open>2 ^ 1024\<close> on the result is infinite. Below \<open>2 ^ 53\<close> every integer is a double.
\<close>

definition roundToDouble :: "nat \<Rightarrow> nat option" where
  "roundToDouble n =
     (if n < 2 ^ 53 then Some n
      else
        let e = bitlen n - 53;
            q = n div 2 ^ e;
            r = n mod 2 ^ e;
            h = 2 ^ (e - 1);
            v = (if r > h \<or> (r = h \<and> odd q) then q + 1 else q) * 2 ^ e
        in if v < 2 ^ 1024 then Some v else None)"

definition hexDigitVal :: "char \<Rightarrow> nat option" where
  "hexDigitVal c =
     (let n = (of_char c :: nat)
      in if 48 \<le> n \<and> n \<le> 57 then Some (n - 48)
         else if 97 \<le> n \<and> n \<le> 102 then Some (n - 87)
         else if 65 \<le> n \<and> n \<le> 70 then Some (n - 55)
         else None)"

definition hexValue :: "string \<Rightarrow> nat" where
  "hexValue z = foldl (\<lambda>acc c. 16 * acc + (case hexDigitVal c of Some v \<Rightarrow> v | None \<Rightarrow> 0)) 0 z"

text \<open>
  \<^verbatim>\<open>parseInt(s, 16)\<close>: leading white space is skipped, then an optional sign, then an
  optional \<^verbatim>\<open>0x\<close> or \<^verbatim>\<open>0X\<close>; the longest run of hexadecimal digits that follows
  is the value, and with no digit there the result is not-a-number.
\<close>

definition parseInt16 :: "string \<Rightarrow> number" where
  "parseInt16 s =
     (let S = dropWhile isWhiteSpace s;
          negative = (case S of c # _ \<Rightarrow> c = CHR ''-'' | [] \<Rightarrow> False);
          S1 = (case S of c # cs \<Rightarrow> if c = CHR ''+'' \<or> c = CHR ''-'' then cs else S | [] \<Rightarrow> S);
          S2 = (if startsWith S1 ''0x'' \<or> startsWith S1 ''0X'' then drop 2 S1 else S1);
          Z = takeWhile (\<lambda>c. hexDigitVal c \<noteq> None) S2
      in if Z = [] then NaN
         else (case roundToDouble (hexValue Z) of
                 None \<Rightarrow> Infinity negative
               | Some v \<Rightarrow> Num (if negative then - int v else int v)))"

text \<open>
  \<^verbatim>\<open>ToInt32\<close>, which the operators \<^verbatim>\<open>&\<close> and \<^verbatim>\<open>>>\<close> apply to their operands:
  not-a-number and the infinities give 0, an integer is reduced modulo \<open>2 ^ 32\<close> into
  the signed range. On such values \<^verbatim>\<open>x & y\<close> is \<open>x AND y\<close> and \<^verbatim>\<open>x >> k\<close> is
  \<open>drop_bit k x\<close> on \<^typ>\<open>int\<close>.
\<close>

definition toInt32 :: "number \<Rightarrow> int" where
  "toInt32 x = (case x of Num v \<Rightarrow> signed_take_bit 31 v | _ \<Rightarrow> 0)"

subsection \<open>The classifier\<close>

text \<open>A group \<^verbatim>\<open>[0-9a-f]{1,4}\<close>.\<close>

definition isLowerHex :: "char \<Rightarrow> bool" where
  "isLowerHex c \<longleftrightarrow>
     (48 \<le> (of_char c :: nat) \<and> (of_char c :: nat) \<le> 57) \<or>
     (97 \<le> (of_char c :: nat) \<and> (of_char c :: nat) \<le> 102)"

definition hex14 :: "string \<Rightarrow> bool" where
  "hex14 g \<longleftrightarrow> 1 \<le> length g \<and> length g \<le> 4 \<and> list_all isLowerHex g"

text \<open>
  \<^verbatim>\<open>normalized.match(/^::ffff:(\d{1,3}\.\d{1,3}\.\d{1,3}\.\d{1,3})$/)\<close>: the captured
  dotted quad.
\<close>

definition ipv4MappedMatch :: "string \<Rightarrow> string option" where
  "ipv4MappedMatch s =
     (if startsWith s ''::ffff:'' \<and> ipv4Match (drop 7 s) \<noteq> None
      then Some (drop 7 s) else None)"

text \<open>
  \<^verbatim>\<open>normalized.match(/^::ffff:([0-9a-f]{1,4}):([0-9a-f]{1,4})$/)\<close>: the two captured
  groups.
\<close>

definition ipv4MappedHexMatch :: "string \<Rightarrow> (string \<times> string) option" where
  "ipv4MappedHexMatch s =
     (if startsWith s ''::ffff:''
      then (case split (CHR '':'') (drop 7 s) of
              [hi, lo] \<Rightarrow> if hex14 hi \<and> hex14 lo then Some (hi, lo) else None
            | _ \<Rightarrow> None)
      else None)"

text \<open>The template literal \<^verbatim>\<open>`${a}.${b}.${c}.${d}`\<close> on non-negative integers.\<close>

definition dotted :: "nat \<Rightarrow> nat \<Rightarrow> nat \<Rightarrow> nat \<Rightarrow> string" where
  "dotted a b c d =
     numberToString a @ ''.'' @ numberToString b @ ''.'' @ numberToString c @ ''.'' @
     numberToString d"

text \<open>\<^verbatim>\<open>${ipv4Check.reason}\<close> inside a template literal.\<close>

definition reasonText :: "string option \<Rightarrow> string" where
  "reasonText r = (case r of Some t \<Rightarrow> t | None \<Rightarrow> ''undefined'')"

definition mappedReason :: "block_decision \<Rightarrow> block_decision" where
  "mappedReason ipv4Check =
     \<lparr>blocked = True,
      reason = Some (''Access to IPv4-mapped blocked address: '' @ reasonText (reason ipv4Check))\<rparr>"

text \<open>
  The last part of the classifier, from the pattern with two hexadecimal groups to the
  final \<^verbatim>\<open>return\<close>.
\<close>

definition checkMappedHex :: "string \<Rightarrow> block_decision" where
  "checkMappedHex normalized =
     (case ipv4MappedHexMatch normalized of
        Some (hi, lo) \<Rightarrow>
          let high = toInt32 (parseInt16 hi);
              low = toInt32 (parseInt16 lo);
              a = drop_bit 8 high AND 0xff;
              b = high AND 0xff;
              c = drop_bit 8 low AND 0xff;
              d = low AND 0xff;
              ipv4 = dotted (nat a) (nat b) (nat c) (nat d);
              ipv4Check = isBlockedIPv4 ipv4
          in if blocked ipv4Check then mappedReason ipv4Check
             else \<lparr>blocked = False, reason = None\<rparr>
      | None \<Rightarrow> \<lparr>blocked = False, reason = None\<rparr>)"

definition isBlockedIPv6 :: "string \<Rightarrow> block_decision" where
  "isBlockedIPv6 ip =
     (let normalized = toLowerCase ip in
      if normalized = ''::1'' then
        \<lparr>blocked = True, reason = Some ''Access to IPv6 localhost is not allowed''\<rparr>
      else
        let firstGroup = (case split (CHR '':'') normalized of g # _ \<Rightarrow> g | [] \<Rightarrow> []);
            groupValue = parseInt16 firstGroup
        in
        if firstGroup \<noteq> [] \<and> \<not> isNaN groupValue \<and> toInt32 groupValue AND 0xffc0 = 0xfe80 then
          \<lparr>blocked = True,
           reason = Some ''Access to IPv6 link-local addresses is not allowed''\<rparr>
        else if startsWith normalized ''fc'' \<or> startsWith normalized ''fd'' then
          \<lparr>blocked = True, reason = Some ''Access to IPv6 private addresses is not allowed''\<rparr>
        else
          (case ipv4MappedMatch normalized of
             Some quad \<Rightarrow>
               let ipv4Check = isBlockedIPv4 quad
               in if blocked ipv4Check then mappedReason ipv4Check
                  else checkMappedHex normalized
           | None \<Rightarrow> checkMappedHex normalized))"

section \<open>URL validation\<close>

text \<open>
  The fields of the platform's \<^verbatim>\<open>URL\<close> object that the validator reads, an entry of
  the resolver's answer (\<^verbatim>\<open>LookupAddress\<close>), and the result types of
  \<^verbatim>\<open>types/index.ts\<close>. An optional field that is absent is \<open>None\<close>.
\<close>

record url =
  protocol :: string
  url_hostname :: string

record lookup_address =
  address :: string
  family :: int

record validation_result =
  valid :: bool
  error :: "string option"

record url_validation_result = validation_result +
  resolvedIp :: "string option"
  hostname :: "string option"

definition url_invalid :: "string option \<Rightarrow> url_validation_result" where
  "url_invalid e = \<lparr>valid = False, error = e, resolvedIp = None, hostname = None\<rparr>"

definition url_valid :: "string option \<Rightarrow> string \<Rightarrow> url_validation_result" where
  "url_valid ip h = \<lparr>valid = True, error = None, resolvedIp = ip, hostname = Some h\<rparr>"

text \<open>
  The text of the failure in the \<^verbatim>\<open>catch\<close> block:
  \<^verbatim>\<open>dnsError instanceof Error ? dnsError.message : String(dnsError)\<close>, inserted in the
  template literal of the next statement. The block has no handler of its own: where
  the conversion throws, the exception leaves the function, on the left.
\<close>

definition errorMessage :: "thrown \<Rightarrow> thrown + string" where
  "errorMessage e =
     (case e of
        ErrorObject message \<Rightarrow> Inr message
      | ErrorWithoutText t \<Rightarrow> Inl t
      | NonError s \<Rightarrow> Inr s
      | Unconvertible t \<Rightarrow> Inl t)"

text \<open>\<^verbatim>\<open>!firstNonBlockedIp\<close>: undefined and the empty string are falsy.\<close>

definition falsy :: "string option \<Rightarrow> bool" where
  "falsy x \<longleftrightarrow> x = None \<or> x = Some []"

text \<open>
  The loop over the resolved addresses. It returns the decision of the first blocked
  address, on the left, or the value of \<^verbatim>\<open>firstNonBlockedIp\<close> after the last address,
  on the right. An entry whose family is neither 4 nor 6 is passed over.
\<close>

fun checkAddresses :: "lookup_address list \<Rightarrow> string option \<Rightarrow> block_decision + string option" where
  "checkAddresses [] firstNonBlockedIp = Inr firstNonBlockedIp"
| "checkAddresses (addr # rest) firstNonBlockedIp =
     (if family addr = 4 then
        let ipCheck = isBlockedIPv4 (address addr)
        in if blocked ipCheck then Inl ipCheck
           else checkAddresses rest
                  (if falsy firstNonBlockedIp then Some (address addr) else firstNonBlockedIp)
      else if family addr = 6 then
        let ipCheck = isBlockedIPv6 (address addr)
        in if blocked ipCheck then Inl ipCheck
           else checkAddresses rest
                  (if falsy firstNonBlockedIp then Some (address addr) else firstNonBlockedIp)
      else checkAddresses rest firstNonBlockedIp)"

text \<open>
  The body of the \<^verbatim>\<open>try\<close> block: a rejected lookup is thrown at the \<^verbatim>\<open>await\<close>, on
  the left; otherwise the block returns a result.
\<close>

definition resolveAndCheck ::
    "(string \<Rightarrow> thrown + lookup_address list) \<Rightarrow> string \<Rightarrow> thrown + url_validation_result" where
  "resolveAndCheck lookup h =
     (case lookup h of
        Inl dnsError \<Rightarrow> Inl dnsError
      | Inr addresses \<Rightarrow>
          if length addresses = 0 then
            Inr (url_invalid (Some ''DNS resolution returned no addresses''))
          else
            (case checkAddresses addresses None of
               Inl ipCheck \<Rightarrow>
                 Inr (url_invalid
                        (Some (''DNS resolved to blocked IP: '' @ reasonText (reason ipCheck))))
             | Inr firstNonBlockedIp \<Rightarrow> Inr (url_valid firstNonBlockedIp h)))"

text \<open>
  \<^verbatim>\<open>validateUrl(urlString, dnsResolver)\<close>. The constructor \<^verbatim>\<open>new URL\<close> of the
  platform and the injected resolver are parameters: each returns its value on the right
  or what it throws on the left. The result is the value the returned promise is
  fulfilled with, on the right, or the reason it is rejected with, on the left.
\<close>

definition validateUrl ::
    "(string \<Rightarrow> thrown + url) \<Rightarrow> (string \<Rightarrow> thrown + lookup_address list) \<Rightarrow> string
     \<Rightarrow> thrown + url_validation_result" where
  "validateUrl newURL lookup urlString =
     (case newURL urlString of
        Inl _ \<Rightarrow> Inr (url_invalid (Some ''Invalid URL format''))
      | Inr parsed \<Rightarrow>
          if protocol parsed \<noteq> ''http:'' \<and> protocol parsed \<noteq> ''https:'' then
            Inr (url_invalid (Some ''Only http and https protocols are allowed''))
          else
            let h = toLowerCase (url_hostname parsed) in
            if h = ''localhost'' \<or> h = ''localhost.localdomain'' then
              Inr (url_invalid (Some ''Access to localhost is not allowed''))
            else if h = ''[::1]'' then
              Inr (url_invalid (Some ''Access to IPv6 localhost is not allowed''))
            else
              let isLiteralIPv4 = (ipv4Match h \<noteq> None);
                  isLiteralIPv6 = (startsWith h ''['' \<and> endsWith h '']'')
              in
              if isLiteralIPv4 then
                let ipCheck = isBlockedIPv4 h
                in if blocked ipCheck then Inr (url_invalid (reason ipCheck))
                   else Inr (url_valid (Some h) h)
              else if isLiteralIPv6 then
                let ipv6 = butlast (tl h);
                    ipCheck = isBlockedIPv6 ipv6
                in if blocked ipCheck then Inr (url_invalid (reason ipCheck))
                   else Inr (url_valid (Some ipv6) h)
              else
                (case resolveAndCheck lookup h of
                   Inr r \<Rightarrow> Inr r
                 | Inl dnsError \<Rightarrow>
                     (case errorMessage dnsError of
                        Inl t \<Rightarrow> Inl t
                      | Inr message \<Rightarrow>
                          Inr (url_invalid (Some (''DNS resolution failed: '' @ message))))))"

subsection \<open>Test doubles\<close>

text \<open>
  \<^verbatim>\<open>createMockDns(responses)\<close> of \<^verbatim>\<open>tests/mocks/dns.ts\<close>: the answer stored for the
  host name (an array, also an empty one, is truthy), or an error \<^verbatim>\<open>ENOTFOUND\<close>. The
  entries of the \<^verbatim>\<open>Map\<close> are listed in the order they were set, and a later entry
  replaces an earlier one with the same key.
\<close>

definition createMockDns ::
    "(string \<times> lookup_address list) list \<Rightarrow> string \<Rightarrow> thrown + lookup_address list" where
  "createMockDns responses h =
     (case map_of (rev responses) h of
        Some result \<Rightarrow> Inr result
      | None \<Rightarrow> Inl (ErrorObject (''getaddrinfo ENOTFOUND '' @ h)))"


text \<open>
  A table of results of the platform's \<^verbatim>\<open>URL\<close> constructor, for evaluating
  \<^const>\<open>validateUrl\<close> at concrete inputs; off the table the constructor throws.
\<close>

definition urlTable :: "(string \<times> url) list \<Rightarrow> string \<Rightarrow> thrown + url" where
  "urlTable rows s =
     (case map_of rows s of
        Some u \<Rightarrow> Inr u
      | None \<Rightarrow> Inl (ErrorObject ''Invalid URL''))"

definition knownUrls :: "(string \<times> url) list" where
  "knownUrls =
     [(''http://localhost'', \<lparr>protocol = ''http:'', url_hostname = ''localhost''\<rparr>),
      (''https://example.com'', \<lparr>protocol = ''https:'', url_hostname = ''example.com''\<rparr>),
      (''https://mixed.example'', \<lparr>protocol = ''https:'', url_hostname = ''mixed.example''\<rparr>),
      (''ftp://example.com/file'', \<lparr>protocol = ''ftp:'', url_hostname = ''example.com''\<rparr>),
      (''http://93.184.216.34'', \<lparr>protocol = ''http:'', url_hostname = ''93.184.216.34''\<rparr>)]"

definition publicDns :: "(string \<times> lookup_address list) list" where
  "publicDns =
     [(''example.com'', [\<lparr>address = ''93.184.216.34'', family = 4\<rparr>]),
      (''localhost'', [\<lparr>address = ''93.184.216.34'', family = 4\<rparr>]),
      (''mixed.example'',
         [\<lparr>address = ''93.184.216.34'', family = 4\<rparr>, \<lparr>address = ''127.0.0.1'', family = 4\<rparr>])]"

subsection \<open>Words of the specification\<close>

text \<open>A resolved address is classified by the classifier of its family.\<close>

definition addressBlocked :: "lookup_address \<Rightarrow> bool" where
  "addressBlocked a \<longleftrightarrow>
     (if family a = 4 then blocked (isBlockedIPv4 (address a))
      else blocked (isBlockedIPv6 (address a)))"

section \<open>Concurrency gate\<close>

text \<open>
  The class \<^verbatim>\<open>Semaphore\<close>: a counter of free permits and the queue of the resolve
  callbacks of the suspended callers, oldest first. A callback is identified by the
  caller it resumes.
\<close>

record semaphore =
  permits :: int
  waiting :: "nat list"

definition Semaphore :: "int \<Rightarrow> semaphore" where
  "Semaphore n = \<lparr>permits = n, waiting = []\<rparr>"

text \<open>
  \<^verbatim>\<open>acquire()\<close> called by \<open>caller\<close>: \<open>True\<close> when the promise resolves at once,
  \<open>False\<close> when the caller is suspended and its callback is pushed on the queue.
\<close>

definition acquire :: "nat \<Rightarrow> semaphore \<Rightarrow> bool \<times> semaphore" where
  "acquire caller s =
     (if permits s > 0 then (True, s\<lparr>permits := permits s - 1\<rparr>)
      else (False, s\<lparr>waiting := waiting s @ [caller]\<rparr>))"

definition tryAcquire :: "semaphore \<Rightarrow> bool \<times> semaphore" where
  "tryAcquire s =
     (if permits s > 0 then (True, s\<lparr>permits := permits s - 1\<rparr>)
      else (False, s))"

text \<open>
  \<^verbatim>\<open>release()\<close>: \<^verbatim>\<open>waiting.shift()\<close> takes the oldest callback; when there is one it
  is called (the result names the caller resumed), otherwise the counter goes up.
\<close>

definition release :: "semaphore \<Rightarrow> nat option \<times> semaphore" where
  "release s =
     (case waiting s of
        next # rest \<Rightarrow> (Some next, s\<lparr>waiting := rest\<rparr>)
      | [] \<Rightarrow> (None, s\<lparr>permits := permits s + 1\<rparr>))"

definition available :: "semaphore \<Rightarrow> int" where
  "available s = permits s"

definition waitingCount :: "semaphore \<Rightarrow> nat" where
  "waitingCount s = length (waiting s)"

subsection \<open>Sequences of gate operations\<close>

text \<open>
  A run of the gate under the single-threaded scheduler: the operations happen one after
  the other. Beside the gate, a run records how many units are held (acquired and not
  yet released), which callers were suspended, in arrival order, and which callers were
  resumed, in the order of their resumption. A \<open>Release\<close> by a caller that holds no unit
  is not part of any run: the result is \<open>None\<close>.
\<close>

datatype gate_op = Acquire nat | TryAcquire | Release

record run_state =
  gate :: semaphore
  held :: nat
  suspended :: "nat list"
  resumed :: "nat list"

definition start :: "int \<Rightarrow> run_state" where
  "start capacity = \<lparr>gate = Semaphore capacity, held = 0, suspended = [], resumed = []\<rparr>"

fun step :: "run_state \<Rightarrow> gate_op \<Rightarrow> run_state option" where
  "step r (Acquire c) =
     (case acquire c (gate r) of
        (True, g) \<Rightarrow> Some (r\<lparr>gate := g, held := held r + 1\<rparr>)
      | (False, g) \<Rightarrow> Some (r\<lparr>gate := g, suspended := suspended r @ [c]\<rparr>))"
| "step r TryAcquire =
     (case tryAcquire (gate r) of
        (True, g) \<Rightarrow> Some (r\<lparr>gate := g, held := held r + 1\<rparr>)
      | (False, g) \<Rightarrow> Some (r\<lparr>gate := g\<rparr>))"
| "step r Release =
     (if held r = 0 then None
      else (case release (gate r) of
              (Some c, g) \<Rightarrow> Some (r\<lparr>gate := g, resumed := resumed r @ [c]\<rparr>)
            | (None, g) \<Rightarrow> Some (r\<lparr>gate := g, held := held r - 1\<rparr>)))"

fun run :: "run_state \<Rightarrow> gate_op list \<Rightarrow> run_state option" where
  "run r [] = Some r"
| "run r (x # xs) = (case step r x of None \<Rightarrow> None | Some r' \<Rightarrow> run r' xs)"

text \<open>The invariants of the gate, as the specification lists them.\<close>

definition gate_invariants :: "int \<Rightarrow> run_state \<Rightarrow> bool" where
  "gate_invariants capacity r \<longleftrightarrow>
     int (held r) \<le> capacity \<and>
     (waiting (gate r) = [] \<longrightarrow> 0 \<le> available (gate r) \<and> available (gate r) \<le> capacity) \<and>
     (waiting (gate r) \<noteq> [] \<longrightarrow> available (gate r) = 0) \<and>
     suspended r = resumed r @ waiting (gate r)"

section \<open>Output path validation\<close>

subsection \<open>Platform functions: the module \<^verbatim>\<open>path\<close>, POSIX flavour\<close>

text \<open>
  The functions \<^verbatim>\<open>resolve\<close>, \<^verbatim>\<open>join\<close>, \<^verbatim>\<open>dirname\<close> and \<^verbatim>\<open>relative\<close> that the
  validator imports, after their documented behaviour on POSIX paths. The working
  directory of the process, which \<^verbatim>\<open>resolve\<close> falls back to, is a parameter.

  Normalisation walks over the segments between the slashes: an empty segment and \<open>.\<close>
  are dropped; \<open>..\<close> removes the segment before it, and where there is none to remove it
  is kept only if the path may rise above its start.
\<close>

fun normalizeSegments :: "bool \<Rightarrow> string list \<Rightarrow> string list \<Rightarrow> string list" where
  "normalizeSegments allowAboveRoot res [] = res"
| "normalizeSegments allowAboveRoot res (seg # rest) =
     (if seg = [] \<or> seg = ''.'' then normalizeSegments allowAboveRoot res rest
      else if seg = ''..'' then
        (if res \<noteq> [] \<and> last res \<noteq> ''..'' then
           normalizeSegments allowAboveRoot (butlast res) rest
         else if allowAboveRoot then normalizeSegments allowAboveRoot (res @ [''..'']) rest
         else normalizeSegments allowAboveRoot res rest)
      else normalizeSegments allowAboveRoot (res @ [seg]) rest)"

definition normalizeString :: "string \<Rightarrow> bool \<Rightarrow> string" where
  "normalizeString p allowAboveRoot =
     joinWith (CHR ''/'') (normalizeSegments allowAboveRoot [] (split (CHR ''/'') p))"

text \<open>
  \<^verbatim>\<open>resolve(...paths)\<close>: the arguments are taken from the right, empty ones skipped,
  until the path built so far is absolute; the working directory comes last.
\<close>

fun resolveArgs :: "string list \<Rightarrow> string \<Rightarrow> string \<times> bool" where
  "resolveArgs [] resolvedPath = (resolvedPath, False)"
| "resolveArgs (p # ps) resolvedPath =
     (case p of
        [] \<Rightarrow> resolveArgs ps resolvedPath
      | c # _ \<Rightarrow>
          if c = CHR ''/'' then (p @ ''/'' @ resolvedPath, True)
          else resolveArgs ps (p @ ''/'' @ resolvedPath))"

definition resolve :: "string \<Rightarrow> string list \<Rightarrow> string" where
  "resolve cwd paths =
     (case resolveArgs (rev paths @ [cwd]) [] of
        (resolvedPath, resolvedAbsolute) \<Rightarrow>
          let normalized = normalizeString resolvedPath (\<not> resolvedAbsolute)
          in if resolvedAbsolute then ''/'' @ normalized
             else if normalized \<noteq> [] then normalized else ''.'')"

text \<open>
  \<^verbatim>\<open>normalize(p)\<close> and \<^verbatim>\<open>join(...paths)\<close>: the non-empty arguments are joined with
  slashes and the result is normalised; a leading and a trailing slash are kept.
\<close>

definition normalizePath :: "string \<Rightarrow> string" where
  "normalizePath p =
     (if p = [] then ''.''
      else
        let isAbsolute = (hd p = CHR ''/'');
            trailingSeparator = (last p = CHR ''/'');
            q = normalizeString p (\<not> isAbsolute)
        in if q = [] then (if isAbsolute then ''/'' else if trailingSeparator then ''./'' else ''.'')
           else
             let q' = (if trailingSeparator then q @ ''/'' else q)
             in if isAbsolute then ''/'' @ q' else q')"

definition join :: "string list \<Rightarrow> string" where
  "join paths =
     (case filter (\<lambda>p. p \<noteq> []) paths of
        [] \<Rightarrow> ''.''
      | joined \<Rightarrow> normalizePath (joinWith (CHR ''/'') joined))"

text \<open>
  \<^verbatim>\<open>dirname(p)\<close>: from the right and without looking at the first character, the
  trailing slashes and the last segment are passed; the path up to the slash before
  them is the result.
\<close>

definition dirname :: "string \<Rightarrow> string" where
  "dirname p =
     (case p of
        [] \<Rightarrow> ''.''
      | c # cs \<Rightarrow>
          let hasRoot = (c = CHR ''/'');
              r = dropWhile (\<lambda>x. x \<noteq> CHR ''/'') (dropWhile (\<lambda>x. x = CHR ''/'') (rev cs))
          in (case r of
                [] \<Rightarrow> if hasRoot then ''/'' else ''.''
              | _ # front \<Rightarrow>
                  if hasRoot \<and> front = [] then ''//'' else c # rev front))"

text \<open>The non-empty segments of a path.\<close>

definition pathSegments :: "string \<Rightarrow> string list" where
  "pathSegments p = filter (\<lambda>s. s \<noteq> []) (split (CHR ''/'') p)"

fun stripCommon :: "string list \<Rightarrow> string list \<Rightarrow> string list \<times> string list" where
  "stripCommon (x # xs) (y # ys) = (if x = y then stripCommon xs ys else (x # xs, y # ys))"
| "stripCommon xs ys = (xs, ys)"

text \<open>
  \<^verbatim>\<open>relative(from, to)\<close>: both paths are resolved; after their common leading
  segments, every segment left of \<open>from\<close> becomes \<open>..\<close> and the segments left of \<open>to\<close>
  follow.
\<close>

definition relative :: "string \<Rightarrow> string \<Rightarrow> string \<Rightarrow> string" where
  "relative cwd from to =
     (if from = to then []
      else
        let from' = resolve cwd [from];
            to' = resolve cwd [to]
        in if from' = to' then []
           else (case stripCommon (pathSegments from') (pathSegments to') of
                   (ups, downs) \<Rightarrow>
                     joinWith (CHR ''/'') (replicate (length ups) ''..'' @ downs)))"

subsection \<open>The validator\<close>

record path_config =
  allowedOutputDirs :: "string list"
  defaultOutDir :: string

record path_validation_result = validation_result +
  path :: "string option"

definition path_invalid :: "string \<Rightarrow> path_validation_result" where
  "path_invalid e = \<lparr>valid = False, error = Some e, path = None\<rparr>"

definition path_valid :: "string \<Rightarrow> path_validation_result" where
  "path_valid p = \<lparr>valid = True, error = None, path = Some p\<rparr>"

text \<open>The absolute form of the custom path.\<close>

definition targetPath :: "string \<Rightarrow> path_config \<Rightarrow> string \<Rightarrow> string" where
  "targetPath cwd config customPath =
     (if startsWith customPath ''/'' then resolve cwd [customPath]
      else resolve cwd [defaultOutDir config, customPath])"

text \<open>
  The loop over the allowed directories: whether one of them, resolved, holds the real
  path according to the test on the relative path.
\<close>

fun withinAllowed :: "string \<Rightarrow> (string \<Rightarrow> thrown + string) \<Rightarrow> string list \<Rightarrow> string \<Rightarrow> bool" where
  "withinAllowed cwd realpath [] realPath \<longleftrightarrow> False"
| "withinAllowed cwd realpath (allowedDir # rest) realPath \<longleftrightarrow>
     (let realAllowedDir =
            (case realpath allowedDir of
               Inr d \<Rightarrow> d
             | Inl _ \<Rightarrow> resolve cwd [allowedDir]);
          relativePath = relative cwd realAllowedDir realPath
      in if \<not> startsWith relativePath ''..'' \<and> \<not> startsWith relativePath ''/'' then True
         else withinAllowed cwd realpath rest realPath)"

definition outsideMessage :: string where
  "outsideMessage =
     ''Output path must be within allowed directories (~/Desktop/Screenshots, ~/Downloads, ~/Documents, or /tmp). Symlinks to other locations are not permitted.''"

text \<open>
  The real path of the target: of the full path if that resolves, else of the parent
  directory with the file name appended; \<open>None\<close> when neither resolves.
\<close>

definition resolveRealPath :: "(string \<Rightarrow> thrown + string) \<Rightarrow> string \<Rightarrow> string option" where
  "resolveRealPath realpath target =
     (case realpath target of
        Inr realPath \<Rightarrow> Some realPath
      | Inl _ \<Rightarrow>
          let parentDir = dirname target;
              fileName = drop (length parentDir + 1) target
          in (case realpath parentDir of
                Inr realParent \<Rightarrow> Some (join [realParent, fileName])
              | Inl _ \<Rightarrow> None))"

text \<open>
  \<^verbatim>\<open>validateOutputPath(customPath, defaultName, config, fileSystem)\<close>. The injected
  \<^verbatim>\<open>realpath\<close> returns the real path on the right or what it throws on the left; an
  absent \<^verbatim>\<open>customPath\<close> is \<open>None\<close>. The result is the value of the fulfilled promise.
\<close>

definition validateOutputPath ::
    "string \<Rightarrow> (string \<Rightarrow> thrown + string) \<Rightarrow> string option \<Rightarrow> string \<Rightarrow> path_config
     \<Rightarrow> thrown + path_validation_result" where
  "validateOutputPath cwd realpath customPath defaultName config =
     (case customPath of
        None \<Rightarrow> Inr (path_valid (join [defaultOutDir config, defaultName]))
      | Some cp \<Rightarrow>
          if cp = [] \<or> trim cp = [] then
            Inr (path_valid (join [defaultOutDir config, defaultName]))
          else if includesStr cp [CHR 0x00] \<or> includesStr cp ''%00'' then
            Inr (path_invalid ''Path contains null bytes'')
          else
            let target = targetPath cwd config cp
            in (case resolveRealPath realpath target of
                  None \<Rightarrow>
                    Inr (path_invalid (''Parent directory does not exist: '' @ dirname target))
                | Some realPath \<Rightarrow>
                    if withinAllowed cwd realpath (allowedOutputDirs config) realPath
                    then Inr (path_valid realPath)
                    else Inr (path_invalid outsideMessage)))"

subsection \<open>Test doubles\<close>

text \<open>
  \<^verbatim>\<open>createMockFs(pathMappings)\<close> of \<^verbatim>\<open>tests/mocks/fs.ts\<close>: a stored error is thrown, a
  stored path is returned, and a missing or empty entry gives \<^verbatim>\<open>ENOENT\<close>. Of two
  entries of the \<^verbatim>\<open>Map\<close> with the same key the later one counts.
\<close>

definition enoent :: "string \<Rightarrow> thrown" where
  "enoent p =
     ErrorObject (''ENOENT: no such file or directory, realpath '' @ [CHR 0x27] @ p @ [CHR 0x27])"

definition createMockFs :: "(string \<times> (thrown + string)) list \<Rightarrow> string \<Rightarrow> thrown + string" where
  "createMockFs pathMappings p =
     (case map_of (rev pathMappings) p of
        Some (Inl e) \<Rightarrow> Inl e
      | Some (Inr result) \<Rightarrow> if result = [] then Inl (enoent p) else Inr result
      | None \<Rightarrow> Inl (enoent p))"

text \<open>\<^verbatim>\<open>TEST_CONFIG\<close> and \<^verbatim>\<open>buildMockFs(extra)\<close> of \<^verbatim>\<open>tests/validators/path.test.ts\<close>.\<close>

definition TEST_CONFIG :: path_config where
  "TEST_CONFIG =
     \<lparr>allowedOutputDirs =
        [''/home/user/Desktop/Screenshots'', ''/tmp'', ''/home/user/Downloads'',
         ''/home/user/Documents''],
      defaultOutDir = ''/home/user/Desktop/Screenshots''\<rparr>"

definition buildMockFs :: "(string \<times> (thrown + string)) list \<Rightarrow> string \<Rightarrow> thrown + string" where
  "buildMockFs extra =
     createMockFs
       ([(''/home/user/Desktop/Screenshots'', Inr ''/home/user/Desktop/Screenshots''),
         (''/tmp'', Inr ''/tmp''),
         (''/home/user/Downloads'', Inr ''/home/user/Downloads''),
         (''/home/user/Documents'', Inr ''/home/user/Documents'')] @ extra)"

subsection \<open>Words of the specification\<close>

text \<open>
  A path is equal to, or a descendant of, a directory when the segments of the directory
  are the leading segments of the path.
\<close>

definition isWithin :: "string \<Rightarrow> string \<Rightarrow> bool" where
  "isWithin dir p \<longleftrightarrow>
     take (length (pathSegments dir)) (pathSegments p) = pathSegments dir"

text \<open>A text contains another one.\<close>

definition containsText :: "string \<Rightarrow> string \<Rightarrow> bool" where
  "containsText s p \<longleftrightarrow> (\<exists>a b. s = a @ p @ b)"

section \<open>Properties of the IPv4 classification\<close>

subsection \<open>Splitting and the pattern\<close>

lemma split_nonempty: "split sep s \<noteq> []"
  by (induction s) (auto split: list.splits)

lemma split_no_sep: "sep \<notin> set a \<Longrightarrow> split sep a = [a]"
  by (induction a) (auto split: list.splits)

lemma split_append: "sep \<notin> set a \<Longrightarrow> split sep (a @ sep # rest) = a # split sep rest"
  by (induction a) (auto split: list.splits simp: split_nonempty)

lemma joinWith_split: "joinWith sep (split sep s) = s"
proof (induction s)
  case Nil
  then show ?case by simp
next
  case (Cons c s)
  obtain g gs where sp: "split sep s = g # gs"
    using split_nonempty [of sep s] by (cases "split sep s") auto
  show ?case
  proof (cases "c = sep")
    case True
    with Cons sp show ?thesis by simp
  next
    case False
    with Cons sp show ?thesis by (cases gs) auto
  qed
qed

lemma digits13_no_dot: "digits13 g \<Longrightarrow> CHR ''.'' \<notin> set g"
  by (auto simp: digits13_def isDigit_def list_all_iff)

lemma ipv4Match_dotted:
  assumes "digits13 a" "digits13 b" "digits13 c" "digits13 d"
  shows "ipv4Match (a @ ''.'' @ b @ ''.'' @ c @ ''.'' @ d)
         = Some (Number a, Number b, Number c, Number d)"
  using assms
  by (simp add: ipv4Match_def split_append split_no_sep digits13_no_dot)

lemma ipv4Match_SomeD:
  assumes "ipv4Match s = Some q"
  shows "\<exists>a b c d. s = a @ ''.'' @ b @ ''.'' @ c @ ''.'' @ d \<and>
           digits13 a \<and> digits13 b \<and> digits13 c \<and> digits13 d \<and>
           q = (Number a, Number b, Number c, Number d)"
proof -
  from assms obtain a b c d where sp: "split (CHR ''.'') s = [a, b, c, d]"
    and dg: "digits13 a" "digits13 b" "digits13 c" "digits13 d"
    and q: "q = (Number a, Number b, Number c, Number d)"
    by (auto simp: ipv4Match_def split: list.splits if_splits)
  have "joinWith (CHR ''.'') (split (CHR ''.'') s) = s" by (rule joinWith_split)
  with sp have "s = a @ ''.'' @ b @ ''.'' @ c @ ''.'' @ d" by simp
  with dg q show ?thesis by blast
qed

lemma matchesIPv4Pattern_iff: "matchesIPv4Pattern s \<longleftrightarrow> ipv4Match s \<noteq> None"
proof
  assume "matchesIPv4Pattern s"
  then show "ipv4Match s \<noteq> None"
    unfolding matchesIPv4Pattern_def using ipv4Match_dotted by auto
next
  assume "ipv4Match s \<noteq> None"
  then obtain q where "ipv4Match s = Some q" by auto
  from ipv4Match_SomeD [OF this] show "matchesIPv4Pattern s"
    unfolding matchesIPv4Pattern_def by blast
qed

lemmas ipv4_eval =
  isBlockedIPv4_def ipv4Match_def digits13_def isDigit_def Number_def digitVal_def

text \<open>
  Claim C10. A string that does not match the pattern of four dot-separated groups of
  one to three digits is classified as not blocked, with no reason. The groups are not
  checked against 255: \<open>300.0.0.1\<close> matches the pattern, and is not blocked either.
\<close>

theorem isBlockedIPv4_unmatched_passes:
  "(\<forall>ip. \<not> matchesIPv4Pattern ip \<longrightarrow> isBlockedIPv4 ip = \<lparr>blocked = False, reason = None\<rparr>) \<and>
   matchesIPv4Pattern ''300.0.0.1'' \<and>
   ipv4Match ''300.0.0.1'' = Some (300, 0, 0, 1) \<and>
   \<not> blocked (isBlockedIPv4 ''300.0.0.1'')"
proof (intro conjI allI impI)
  fix ip
  assume "\<not> matchesIPv4Pattern ip"
  then have "ipv4Match ip = None" unfolding matchesIPv4Pattern_iff by blast
  then show "isBlockedIPv4 ip = \<lparr>blocked = False, reason = None\<rparr>"
    by (simp add: isBlockedIPv4_def)
next
  show m: "ipv4Match ''300.0.0.1'' = Some (300, 0, 0, 1)"
    by (simp add: ipv4_eval)
  then show "matchesIPv4Pattern ''300.0.0.1''"
    by (simp add: matchesIPv4Pattern_iff)
  from m show "\<not> blocked (isBlockedIPv4 ''300.0.0.1'')"
    by (simp add: isBlockedIPv4_def)
qed

theorem isBlockedIPv4_unmatched_passes_witness:
  "\<not> matchesIPv4Pattern ''not-an-ip'' \<and>
   isBlockedIPv4 ''not-an-ip'' = \<lparr>blocked = False, reason = None\<rparr>"
proof -
  have n: "\<not> matchesIPv4Pattern ''not-an-ip''"
    by (simp add: matchesIPv4Pattern_iff ipv4_eval)
  with isBlockedIPv4_unmatched_passes show ?thesis by blast
qed

subsection \<open>Octets and address blocks\<close>

lemma div_split: "r < m \<Longrightarrow> x = q * m + r \<Longrightarrow> x div m = (q::nat)"
  by simp

lemma ipv4Value_div24:
  assumes "b \<le> 255" "c \<le> 255" "d \<le> 255"
  shows "ipv4Value a b c d div 2 ^ 24 = a"
proof (rule div_split [where r = "b * 65536 + c * 256 + d"])
  show "b * 65536 + c * 256 + d < 2 ^ 24" using assms by simp
  show "ipv4Value a b c d = a * 2 ^ 24 + (b * 65536 + c * 256 + d)"
    by (simp add: ipv4Value_def)
qed

lemma ipv4Value_div16:
  assumes "b \<le> 255" "c \<le> 255" "d \<le> 255"
  shows "ipv4Value a b c d div 2 ^ 16 = a * 256 + b"
proof (rule div_split [where r = "c * 256 + d"])
  show "c * 256 + d < 2 ^ 16" using assms by simp
  show "ipv4Value a b c d = (a * 256 + b) * 2 ^ 16 + (c * 256 + d)"
    by (simp add: ipv4Value_def)
qed

lemma ipv4Value_div_mid:
  assumes "b \<le> 255" "c \<le> 255" "d \<le> 255" "k \<le> 8"
  shows "ipv4Value a b c d div 2 ^ (16 + k) = a * 2 ^ (8 - k) + b div 2 ^ k"
proof -
  have "ipv4Value a b c d div 2 ^ (16 + k) = (ipv4Value a b c d div 2 ^ 16) div 2 ^ k"
    by (simp add: power_add div_mult2_eq)
  also have "\<dots> = (a * 256 + b) div 2 ^ k"
    using ipv4Value_div16 [OF assms(1-3), of a] by simp
  also have "a * 256 = (a * 2 ^ (8 - k)) * 2 ^ k"
  proof -
    have "(256::nat) = 2 ^ (8 - k) * 2 ^ k"
      using assms(4) by (simp flip: power_add)
    then show ?thesis by (simp only: mult.assoc)
  qed
  also have "(a * 2 ^ (8 - k) * 2 ^ k + b) div 2 ^ k = a * 2 ^ (8 - k) + b div 2 ^ k"
    by simp
  finally show ?thesis .
qed

lemma pair_eq:
  fixes x y m :: nat
  assumes "y < m" "y' < m"
  shows "x * m + y = x' * m + y' \<longleftrightarrow> x = x' \<and> y = y'"
proof
  assume eq: "x * m + y = x' * m + y'"
  have "(x * m + y) div m = x" "(x' * m + y') div m = x'"
    using assms by simp_all
  with eq have "x = x'" by simp
  with eq show "x = x' \<and> y = y'" by simp
qed simp

lemma div_eq_iff_range:
  fixes m n q :: nat
  assumes "0 < n"
  shows "m div n = q \<longleftrightarrow> q * n \<le> m \<and> m < Suc q * n"
proof
  assume "m div n = q"
  then show "q * n \<le> m \<and> m < Suc q * n"
    using assms dividend_less_div_times [of n m] by auto
next
  assume "q * n \<le> m \<and> m < Suc q * n"
  then show "m div n = q"
    by (intro div_nat_eqI) (simp_all add: mult.commute)
qed

lemma inCidr8:
  assumes "b \<le> 255" "c \<le> 255" "d \<le> 255"
  shows "inCidr (ipv4Value a b c d) (ipv4Value a' 0 0 0) 8 \<longleftrightarrow> a = a'"
  using ipv4Value_div24 [OF assms, of a] ipv4Value_div24 [of 0 0 0 a']
  by (simp add: inCidr_def)

lemma inCidr16:
  assumes "b \<le> 255" "c \<le> 255" "d \<le> 255" "b' \<le> 255"
  shows "inCidr (ipv4Value a b c d) (ipv4Value a' b' 0 0) 16 \<longleftrightarrow> a = a' \<and> b = b'"
proof -
  have l: "ipv4Value a b c d div 2 ^ (32 - 16) = a * 256 + b"
    using ipv4Value_div16 [OF assms(1-3)] by simp
  have r: "ipv4Value a' b' 0 0 div 2 ^ (32 - 16) = a' * 256 + b'"
    using ipv4Value_div16 [OF assms(4), of 0 0] by simp
  have "a * 256 + b = a' * 256 + b' \<longleftrightarrow> a = a' \<and> b = b'"
    using assms(1,4) by (intro pair_eq) simp_all
  then show ?thesis unfolding inCidr_def l r .
qed

lemma inCidr_prefix:
  assumes "b \<le> 255" "c \<le> 255" "d \<le> 255" "b' \<le> 255" "k \<le> 8"
  shows "inCidr (ipv4Value a b c d) (ipv4Value a' b' 0 0) (16 - k) \<longleftrightarrow>
         a = a' \<and> (b' div 2 ^ k) * 2 ^ k \<le> b \<and> b < Suc (b' div 2 ^ k) * 2 ^ k"
proof -
  have p: "(2::nat) ^ 8 = 2 ^ (8 - k) * 2 ^ k"
    using assms(5) by (simp flip: power_add)
  have "b < 2 ^ (8 - k) * 2 ^ k" "b' < 2 ^ (8 - k) * 2 ^ k"
    using assms(1,4) unfolding p [symmetric] by simp_all
  then have lt: "b div 2 ^ k < 2 ^ (8 - k)" "b' div 2 ^ k < 2 ^ (8 - k)"
    by (simp_all add: less_mult_imp_div_less)
  have e: "32 - (16 - k) = 16 + k" using assms(5) by simp
  have "inCidr (ipv4Value a b c d) (ipv4Value a' b' 0 0) (16 - k) \<longleftrightarrow>
        a * 2 ^ (8 - k) + b div 2 ^ k = a' * 2 ^ (8 - k) + b' div 2 ^ k"
    unfolding inCidr_def e
    using ipv4Value_div_mid [OF assms(1-3,5)] ipv4Value_div_mid [OF assms(4) _ _ assms(5), of 0 0]
    by simp
  also have "\<dots> \<longleftrightarrow> a = a' \<and> b div 2 ^ k = b' div 2 ^ k"
    using lt by (rule pair_eq)
  also have "b div 2 ^ k = b' div 2 ^ k \<longleftrightarrow>
             (b' div 2 ^ k) * 2 ^ k \<le> b \<and> b < Suc (b' div 2 ^ k) * 2 ^ k"
    by (rule div_eq_iff_range) simp
  finally show ?thesis .
qed

lemma inCidr12:
  assumes "b \<le> 255" "c \<le> 255" "d \<le> 255"
  shows "inCidr (ipv4Value a b c d) (ipv4Value 172 16 0 0) 12 \<longleftrightarrow>
         a = 172 \<and> 16 \<le> b \<and> b \<le> 31"
  using inCidr_prefix [OF assms, of 16 4 a 172] by auto

lemma inCidr10:
  assumes "b \<le> 255" "c \<le> 255" "d \<le> 255"
  shows "inCidr (ipv4Value a b c d) (ipv4Value 100 64 0 0) 10 \<longleftrightarrow>
         a = 100 \<and> 64 \<le> b \<and> b \<le> 127"
  using inCidr_prefix [OF assms, of 64 6 a 100] by auto

lemma inCidr15:
  assumes "b \<le> 255" "c \<le> 255" "d \<le> 255"
  shows "inCidr (ipv4Value a b c d) (ipv4Value 198 18 0 0) 15 \<longleftrightarrow>
         a = 198 \<and> (b = 18 \<or> b = 19)"
  using inCidr_prefix [OF assms, of 18 1 a 198] by auto

lemma ipv4Value_broadcast:
  assumes "a \<le> 255" "b \<le> 255" "c \<le> 255" "d \<le> 255"
  shows "ipv4Value a b c d = ipv4Value 255 255 255 255 \<longleftrightarrow>
         a = 255 \<and> b = 255 \<and> c = 255 \<and> d = 255"
  using assms by (simp add: ipv4Value_def) arith

subsection \<open>Decimal rendering\<close>

lemma digit_roundtrip: "k < 10 \<Longrightarrow> isDigit (digitChar k) \<and> digitVal (digitChar k) = k"
  by (simp add: isDigit_def digitChar_def digitVal_def)

lemma numberToString_1: "n < 10 \<Longrightarrow> numberToString n = [digitChar n]"
  by (simp add: numberToString.simps)

lemma numberToString_2:
  "10 \<le> n \<Longrightarrow> n < 100 \<Longrightarrow> numberToString n = [digitChar (n div 10), digitChar (n mod 10)]"
  by (subst numberToString.simps) (simp add: numberToString_1)

lemma numberToString_3:
  assumes "100 \<le> n" "n < 1000"
  shows "numberToString n =
         [digitChar (n div 100), digitChar (n div 10 mod 10), digitChar (n mod 10)]"
proof -
  have "10 \<le> n div 10" "n div 10 < 100" using assms by simp_all
  then have "numberToString (n div 10) = [digitChar (n div 10 div 10), digitChar (n div 10 mod 10)]"
    by (rule numberToString_2)
  moreover have "n div 10 div 10 = n div 100" by (simp add: div_mult2_eq)
  ultimately show ?thesis
    using assms by (subst numberToString.simps) simp
qed

lemma numberToString_digits13:
  assumes "n < 1000"
  shows "digits13 (numberToString n) \<and> Number (numberToString n) = n"
proof -
  consider "n < 10" | "10 \<le> n" "n < 100" | "100 \<le> n" using assms by linarith
  then show ?thesis
  proof cases
    case 1
    then show ?thesis
      using digit_roundtrip [of n]
      by (simp add: numberToString_1 digits13_def Number_def)
  next
    case 2
    have "n div 10 < 10" "n mod 10 < 10" using 2 by simp_all
    then show ?thesis
      using digit_roundtrip [of "n div 10"] digit_roundtrip [of "n mod 10"] 2
      by (simp add: numberToString_2 digits13_def Number_def)
  next
    case 3
    have "n div 100 < 10" "n div 10 mod 10 < 10" "n mod 10 < 10" using 3 assms by simp_all
    moreover have "10 * (10 * (n div 100) + n div 10 mod 10) + n mod 10 = n"
    proof -
      have "n div 10 = 10 * (n div 10 div 10) + n div 10 mod 10" by simp
      moreover have "n div 10 div 10 = n div 100" by (simp add: div_mult2_eq)
      ultimately have "10 * (n div 100) + n div 10 mod 10 = n div 10" by simp
      then show ?thesis by simp
    qed
    ultimately show ?thesis
      using digit_roundtrip [of "n div 100"] digit_roundtrip [of "n div 10 mod 10"]
        digit_roundtrip [of "n mod 10"] 3 assms
      by (simp add: numberToString_3 digits13_def Number_def)
  qed
qed

lemma ipv4Match_dotted_numbers:
  assumes "a < 1000" "b < 1000" "c < 1000" "d < 1000"
  shows "ipv4Match (dotted a b c d) = Some (a, b, c, d)"
  unfolding dotted_def
  using ipv4Match_dotted [of "numberToString a" "numberToString b" "numberToString c"
      "numberToString d"] assms
  by (simp add: numberToString_digits13)

subsection \<open>Groups of digits and their numbers\<close>

lemma Number_snoc: "Number (g @ [c]) = 10 * Number g + digitVal c"
  by (simp add: Number_def)

lemma decimalValue_snoc: "decimalValue (g @ [c]) = 10 * decimalValue g + digitVal c"
proof -
  have "decimalValue (g @ [c]) =
        (\<Sum>i < length g. digitVal ((g @ [c]) ! i) * 10 ^ (Suc (length g) - Suc i)) + digitVal c"
    by (simp add: decimalValue_def)
  also have "(\<Sum>i < length g. digitVal ((g @ [c]) ! i) * 10 ^ (Suc (length g) - Suc i)) =
             (\<Sum>i < length g. 10 * (digitVal (g ! i) * 10 ^ (length g - Suc i)))"
  proof (rule sum.cong)
    fix i
    assume "i \<in> {..<length g}"
    then have i: "i < length g" by simp
    then have "Suc (length g) - Suc i = Suc (length g - Suc i)" by simp
    with i show "digitVal ((g @ [c]) ! i) * 10 ^ (Suc (length g) - Suc i) =
                 10 * (digitVal (g ! i) * 10 ^ (length g - Suc i))"
      by (simp add: nth_append)
  qed simp
  also have "\<dots> = 10 * decimalValue g"
    by (simp add: decimalValue_def sum_distrib_left)
  finally show ?thesis .
qed

lemma Number_decimalValue: "Number g = decimalValue g"
proof (induction g rule: rev_induct)
  case Nil
  then show ?case by (simp add: Number_def decimalValue_def)
next
  case (snoc c g)
  then show ?case by (simp add: Number_snoc decimalValue_snoc)
qed

text \<open>The chain of tests of \<^const>\<open>isBlockedIPv4\<close>, on the four numbers.\<close>

lemma isBlockedIPv4_octets:
  assumes "ipv4Match ip = Some (a, b, c, d)"
  shows "blocked (isBlockedIPv4 ip) \<longleftrightarrow> inBlockedOctets a b c d"
  using assms by (simp add: isBlockedIPv4_def inBlockedOctets_def)

lemma inBlockedRanges_octets:
  assumes "a \<le> 255" "b \<le> 255" "c \<le> 255" "d \<le> 255"
  shows "inBlockedRanges (ipv4Value a b c d) \<longleftrightarrow> inBlockedOctets a b c d"
  unfolding inBlockedRanges_def inBlockedOctets_def
  by (simp only: inCidr8 [OF assms(2-4)] inCidr12 [OF assms(2-4)] inCidr10 [OF assms(2-4)]
        inCidr15 [OF assms(2-4)] inCidr16 [OF assms(2-4)] ipv4Value_broadcast [OF assms])

lemma isBlockedIPv4_groups:
  assumes "digits13 g1" "digits13 g2" "digits13 g3" "digits13 g4"
  shows "blocked (isBlockedIPv4 (g1 @ ''.'' @ g2 @ ''.'' @ g3 @ ''.'' @ g4)) \<longleftrightarrow>
         inBlockedOctets (decimalValue g1) (decimalValue g2) (decimalValue g3) (decimalValue g4)"
  using isBlockedIPv4_octets [OF ipv4Match_dotted [OF assms]]
  by (simp only: Number_decimalValue)

text \<open>
  Claim C2. The dotted quad written for an address \<open>a.b.c.d\<close> with octets up to 255 is
  blocked exactly when the 32-bit value of the address lies in one of 127.0.0.0/8,
  10.0.0.0/8, 172.16.0.0/12, 192.168.0.0/16, 169.254.0.0/16, 0.0.0.0/8, 100.64.0.0/10,
  198.18.0.0/15, that is, its leading bits agree with the base of the block, or is
  255.255.255.255. The same holds for every string of four dot-separated groups of one
  to three digits that denote numbers up to 255, leading zeros included. For any such
  string, also with a group above 255, the decision is the one of the blocks read on
  the four numbers. The six addresses just outside the boundaries are not blocked.
\<close>

theorem isBlockedIPv4_ranges:
  "(\<forall>a b c d.
      a \<le> 255 \<and> b \<le> 255 \<and> c \<le> 255 \<and> d \<le> 255 \<longrightarrow>
      (blocked (isBlockedIPv4 (dotted a b c d)) \<longleftrightarrow> inBlockedRanges (ipv4Value a b c d))) \<and>
   (\<forall>g1 g2 g3 g4.
      digits13 g1 \<and> digits13 g2 \<and> digits13 g3 \<and> digits13 g4 \<and>
      decimalValue g1 \<le> 255 \<and> decimalValue g2 \<le> 255 \<and>
      decimalValue g3 \<le> 255 \<and> decimalValue g4 \<le> 255 \<longrightarrow>
      (blocked (isBlockedIPv4 (g1 @ ''.'' @ g2 @ ''.'' @ g3 @ ''.'' @ g4)) \<longleftrightarrow>
       inBlockedRanges
         (ipv4Value (decimalValue g1) (decimalValue g2) (decimalValue g3) (decimalValue g4)))) \<and>
   (\<forall>g1 g2 g3 g4.
      digits13 g1 \<and> digits13 g2 \<and> digits13 g3 \<and> digits13 g4 \<longrightarrow>
      (blocked (isBlockedIPv4 (g1 @ ''.'' @ g2 @ ''.'' @ g3 @ ''.'' @ g4)) \<longleftrightarrow>
       inBlockedOctets (decimalValue g1) (decimalValue g2) (decimalValue g3) (decimalValue g4))) \<and>
   \<not> blocked (isBlockedIPv4 ''172.15.255.255'') \<and>
   \<not> blocked (isBlockedIPv4 ''172.32.0.0'') \<and>
   \<not> blocked (isBlockedIPv4 ''100.63.255.255'') \<and>
   \<not> blocked (isBlockedIPv4 ''100.128.0.0'') \<and>
   \<not> blocked (isBlockedIPv4 ''198.17.255.255'') \<and>
   \<not> blocked (isBlockedIPv4 ''198.20.0.0'')"
proof (intro conjI allI impI)
  fix a b c d :: nat
  assume h: "a \<le> 255 \<and> b \<le> 255 \<and> c \<le> 255 \<and> d \<le> 255"
  then have "ipv4Match (dotted a b c d) = Some (a, b, c, d)"
    by (intro ipv4Match_dotted_numbers) simp_all
  then have "blocked (isBlockedIPv4 (dotted a b c d)) \<longleftrightarrow> inBlockedOctets a b c d"
    by (rule isBlockedIPv4_octets)
  also have "\<dots> \<longleftrightarrow> inBlockedRanges (ipv4Value a b c d)"
    using h by (simp add: inBlockedRanges_octets)
  finally show "blocked (isBlockedIPv4 (dotted a b c d)) \<longleftrightarrow> inBlockedRanges (ipv4Value a b c d)" .
next
  fix g1 g2 g3 g4
  assume h: "digits13 g1 \<and> digits13 g2 \<and> digits13 g3 \<and> digits13 g4 \<and>
      decimalValue g1 \<le> 255 \<and> decimalValue g2 \<le> 255 \<and>
      decimalValue g3 \<le> 255 \<and> decimalValue g4 \<le> 255"
  then have "blocked (isBlockedIPv4 (g1 @ ''.'' @ g2 @ ''.'' @ g3 @ ''.'' @ g4)) \<longleftrightarrow>
       inBlockedOctets (decimalValue g1) (decimalValue g2) (decimalValue g3) (decimalValue g4)"
    by (intro isBlockedIPv4_groups) simp_all
  also have "\<dots> \<longleftrightarrow> inBlockedRanges
         (ipv4Value (decimalValue g1) (decimalValue g2) (decimalValue g3) (decimalValue g4))"
    using h by (simp add: inBlockedRanges_octets)
  finally show "blocked (isBlockedIPv4 (g1 @ ''.'' @ g2 @ ''.'' @ g3 @ ''.'' @ g4)) \<longleftrightarrow>
       inBlockedRanges
         (ipv4Value (decimalValue g1) (decimalValue g2) (decimalValue g3) (decimalValue g4))" .
next
  fix g1 g2 g3 g4
  assume "digits13 g1 \<and> digits13 g2 \<and> digits13 g3 \<and> digits13 g4"
  then show "blocked (isBlockedIPv4 (g1 @ ''.'' @ g2 @ ''.'' @ g3 @ ''.'' @ g4)) \<longleftrightarrow>
       inBlockedOctets (decimalValue g1) (decimalValue g2) (decimalValue g3) (decimalValue g4)"
    by (intro isBlockedIPv4_groups) simp_all
qed (simp_all add: ipv4_eval)

theorem isBlockedIPv4_ranges_witness:
  "dotted 172 31 255 255 = ''172.31.255.255'' \<and>
   blocked (isBlockedIPv4 ''172.31.255.255'') \<and>
   inBlockedRanges (ipv4Value 172 31 255 255) \<and>
   dotted 8 8 8 8 = ''8.8.8.8'' \<and>
   \<not> blocked (isBlockedIPv4 ''8.8.8.8'') \<and>
   \<not> inBlockedRanges (ipv4Value 8 8 8 8) \<and>
   decimalValue ''010'' = 10 \<and> decimalValue ''0'' = 0 \<and> decimalValue ''1'' = 1 \<and>
   blocked (isBlockedIPv4 ''010.0.0.1'') \<and>
   inBlockedRanges (ipv4Value 10 0 0 1) \<and>
   inBlockedOctets 10 0 0 1"
proof -
  have d1: "dotted 172 31 255 255 = ''172.31.255.255''"
    by (simp add: dotted_def numberToString_3 numberToString_2 digitChar_def char_of_eq_iff)
  have b1: "blocked (isBlockedIPv4 ''172.31.255.255'')"
    by (simp add: ipv4_eval)
  have r1: "blocked (isBlockedIPv4 (dotted 172 31 255 255)) \<longleftrightarrow>
            inBlockedRanges (ipv4Value 172 31 255 255)"
  proof -
    have "(172::nat) \<le> 255 \<and> (31::nat) \<le> 255 \<and> (255::nat) \<le> 255 \<and> (255::nat) \<le> 255" by simp
    with isBlockedIPv4_ranges show ?thesis by blast
  qed
  have d2: "dotted 8 8 8 8 = ''8.8.8.8''"
    by (simp add: dotted_def numberToString_1 digitChar_def char_of_eq_iff)
  have b2: "\<not> blocked (isBlockedIPv4 ''8.8.8.8'')"
    by (simp add: ipv4_eval)
  have r2: "blocked (isBlockedIPv4 (dotted 8 8 8 8)) \<longleftrightarrow> inBlockedRanges (ipv4Value 8 8 8 8)"
  proof -
    have "(8::nat) \<le> 255 \<and> (8::nat) \<le> 255 \<and> (8::nat) \<le> 255 \<and> (8::nat) \<le> 255" by simp
    with isBlockedIPv4_ranges show ?thesis by blast
  qed
  have v: "decimalValue ''010'' = 10" "decimalValue ''0'' = 0" "decimalValue ''1'' = 1"
    by (simp_all flip: Number_decimalValue add: Number_def digitVal_def)
  have g: "digits13 ''010''" "digits13 ''0''" "digits13 ''1''"
    by (simp_all add: digits13_def isDigit_def)
  have b3: "blocked (isBlockedIPv4 ''010.0.0.1'')"
    by (simp add: ipv4_eval)
  have s3: "''010.0.0.1'' = ''010'' @ ''.'' @ ''0'' @ ''.'' @ ''0'' @ ''.'' @ ''1''" by simp
  have r3: "blocked (isBlockedIPv4 (''010'' @ ''.'' @ ''0'' @ ''.'' @ ''0'' @ ''.'' @ ''1'')) \<longleftrightarrow>
            inBlockedRanges (ipv4Value (decimalValue ''010'') (decimalValue ''0'')
              (decimalValue ''0'') (decimalValue ''1''))"
  proof -
    have "digits13 ''010'' \<and> digits13 ''0'' \<and> digits13 ''0'' \<and> digits13 ''1'' \<and>
          decimalValue ''010'' \<le> 255 \<and> decimalValue ''0'' \<le> 255 \<and>
          decimalValue ''0'' \<le> 255 \<and> decimalValue ''1'' \<le> 255"
      using g v by simp
    with isBlockedIPv4_ranges show ?thesis by blast
  qed
  have o3: "blocked (isBlockedIPv4 (''010'' @ ''.'' @ ''0'' @ ''.'' @ ''0'' @ ''.'' @ ''1'')) \<longleftrightarrow>
            inBlockedOctets (decimalValue ''010'') (decimalValue ''0'')
              (decimalValue ''0'') (decimalValue ''1'')"
  proof -
    have "digits13 ''010'' \<and> digits13 ''0'' \<and> digits13 ''0'' \<and> digits13 ''1''"
      using g by simp
    with isBlockedIPv4_ranges show ?thesis by blast
  qed
  from r1 b1 have i1: "inBlockedRanges (ipv4Value 172 31 255 255)"
    unfolding d1 by blast
  from r2 b2 have i2: "\<not> inBlockedRanges (ipv4Value 8 8 8 8)"
    unfolding d2 by blast
  from r3 b3 have i3: "inBlockedRanges (ipv4Value 10 0 0 1)"
    unfolding s3 [symmetric] v by blast
  from o3 b3 have i4: "inBlockedOctets 10 0 0 1"
    unfolding s3 [symmetric] v by blast
  from d1 b1 i1 d2 b2 i2 v b3 i3 i4 show ?thesis by blast
qed

section \<open>Properties of the IPv6 classification\<close>

subsection \<open>Hexadecimal groups\<close>

lemma hexValue_snoc:
  "hexValue (z @ [c]) = 16 * hexValue z + (case hexDigitVal c of Some v \<Rightarrow> v | None \<Rightarrow> 0)"
  by (simp add: hexValue_def)

lemma hexDigitVal_less: "(case hexDigitVal c of Some v \<Rightarrow> v | None \<Rightarrow> 0) < 16"
  by (auto simp: hexDigitVal_def Let_def)

lemma hexValue_less: "hexValue z < 16 ^ length z"
proof (induction z rule: rev_induct)
  case Nil
  then show ?case by (simp add: hexValue_def)
next
  case (snoc c z)
  have "hexValue (z @ [c]) < 16 * hexValue z + 16"
    using hexDigitVal_less [of c] by (simp add: hexValue_snoc)
  also have "\<dots> = 16 * (hexValue z + 1)" by simp
  also have "\<dots> \<le> 16 * 16 ^ length z"
    using snoc.IH by (intro mult_le_mono2) simp
  finally show ?case by simp
qed

lemma hex14_less: "hex14 g \<Longrightarrow> hexValue g < 65536"
proof -
  assume "hex14 g"
  then have "length g \<le> 4" by (simp add: hex14_def)
  then have "(16::nat) ^ length g \<le> 16 ^ 4" by (intro power_increasing) simp_all
  with hexValue_less [of g] show ?thesis by simp
qed

lemma isLowerHex_facts:
  assumes "isLowerHex c"
  shows "hexDigitVal c \<noteq> None" "\<not> isWhiteSpace c" "c \<noteq> CHR ''+''" "c \<noteq> CHR ''-''"
    "c \<noteq> CHR ''x''" "c \<noteq> CHR ''X''" "c \<noteq> CHR '':''" "c \<noteq> CHR ''.''"
  using assms by (auto simp: isLowerHex_def hexDigitVal_def isWhiteSpace_def Let_def)

lemma parseInt16_hex14:
  assumes "hex14 g"
  shows "parseInt16 g = Num (int (hexValue g))"
proof -
  from assms obtain c cs where g: "g = c # cs" and c: "isLowerHex c" and cs: "list_all isLowerHex cs"
    by (cases g) (auto simp: hex14_def)
  have all: "\<forall>x \<in> set g. hexDigitVal x \<noteq> None"
    using assms isLowerHex_facts(1) by (auto simp: hex14_def list_all_iff)
  have ws: "dropWhile isWhiteSpace g = g"
    using g c isLowerHex_facts(2) by simp
  have nox: "\<not> startsWith g ''0x''" "\<not> startsWith g ''0X''"
  proof -
    show "\<not> startsWith g ''0x''"
    proof
      assume "startsWith g ''0x''"
      then have "CHR ''x'' \<in> set cs" using g by (cases cs) (auto simp: startsWith_def)
      with cs isLowerHex_facts(5) show False by (auto simp: list_all_iff)
    qed
    show "\<not> startsWith g ''0X''"
    proof
      assume "startsWith g ''0X''"
      then have "CHR ''X'' \<in> set cs" using g by (cases cs) (auto simp: startsWith_def)
      with cs isLowerHex_facts(6) show False by (auto simp: list_all_iff)
    qed
  qed
  have tw: "takeWhile (\<lambda>c. hexDigitVal c \<noteq> None) g = g"
    using all by (simp add: takeWhile_eq_all_conv)
  have small: "hexValue g < 2 ^ 53"
    using hex14_less [OF assms] by simp
  have sgn: "c \<noteq> CHR ''+''" "c \<noteq> CHR ''-''"
    using c isLowerHex_facts by blast+
  have "parseInt16 (c # cs) = Num (int (hexValue (c # cs)))"
    using ws nox tw small sgn unfolding g
    by (simp add: parseInt16_def roundToDouble_def Let_def)
  then show ?thesis by (simp add: g)
qed

lemma toInt32_small: "0 \<le> v \<Longrightarrow> v < 2 ^ 31 \<Longrightarrow> toInt32 (Num v) = v"
  by (simp add: toInt32_def signed_take_bit_int_eq_self)

lemma and_255: "(x::int) AND 0xff = x mod 256"
proof -
  have "x AND mask 8 = take_bit 8 x" by (simp add: take_bit_eq_mask)
  then show ?thesis by (simp add: take_bit_eq_mod mask_eq_exp_minus_1)
qed

lemma octets_of_group:
  fixes a b :: nat
  assumes "a \<le> 255" "b \<le> 255"
  shows "nat (drop_bit 8 (int (a * 256 + b)) AND 0xff) = a"
    and "nat (int (a * 256 + b) AND 0xff) = b"
proof -
  have "drop_bit 8 (int (a * 256 + b)) = int a"
    using assms by (simp add: drop_bit_eq_div)
  then show "nat (drop_bit 8 (int (a * 256 + b)) AND 0xff) = a"
    using assms by (simp add: and_255)
  have "int (a * 256 + b) mod 256 = int b"
    using assms by simp
  then show "nat (int (a * 256 + b) AND 0xff) = b"
    by (simp add: and_255)
qed

subsection \<open>The classes of blocked addresses\<close>

lemma hex14_no_colon: "hex14 g \<Longrightarrow> CHR '':'' \<notin> set g"
  using isLowerHex_facts(7) by (auto simp: hex14_def list_all_iff)

lemma hex14_no_dot: "hex14 g \<Longrightarrow> CHR ''.'' \<notin> set g"
  using isLowerHex_facts(8) by (auto simp: hex14_def list_all_iff)

lemma digits13_no_colon: "digits13 g \<Longrightarrow> CHR '':'' \<notin> set g"
  by (auto simp: digits13_def isDigit_def list_all_iff)

lemma quad_no_colon:
  assumes "ipv4Match quad \<noteq> None"
  shows "CHR '':'' \<notin> set quad"
proof -
  from assms obtain q where "ipv4Match quad = Some q" by auto
  from ipv4Match_SomeD [OF this] show ?thesis
    using digits13_no_colon by auto
qed

text \<open>The first group of a text that begins with a group and a colon.\<close>

lemma firstGroup_eq:
  assumes "CHR '':'' \<notin> set g"
  shows "(case split (CHR '':'') (g @ '':'' @ rest) of x # _ \<Rightarrow> x | [] \<Rightarrow> []) = g"
  using split_append [OF assms, of rest] by simp

lemma linkLocal_blocked:
  assumes n: "toLowerCase ip = g @ '':'' @ rest"
    and g: "hex14 g"
    and m: "int (hexValue g) AND 0xffc0 = 0xfe80"
  shows "blocked (isBlockedIPv6 ip)"
proof -
  have fg: "(case split (CHR '':'') (toLowerCase ip) of x # _ \<Rightarrow> x | [] \<Rightarrow> []) = g"
    unfolding n using hex14_no_colon [OF g] by (rule firstGroup_eq)
  have ne: "g \<noteq> []" using g by (auto simp: hex14_def)
  have v: "toInt32 (parseInt16 g) = int (hexValue g)"
    using hex14_less [OF g] by (simp add: parseInt16_hex14 [OF g] toInt32_small)
  have nn: "\<not> isNaN (parseInt16 g)"
    by (simp add: parseInt16_hex14 [OF g] isNaN_def)
  show ?thesis
    unfolding isBlockedIPv6_def Let_def fg
    using ne v nn m by simp
qed

lemma uniqueLocal_blocked:
  assumes "startsWith (toLowerCase ip) ''fc'' \<or> startsWith (toLowerCase ip) ''fd''"
  shows "blocked (isBlockedIPv6 ip)"
  using assms by (simp add: isBlockedIPv6_def Let_def)

text \<open>What the classifier does on a text that begins with \<open>::ffff:\<close>.\<close>

lemma mapped_prefix:
  assumes n: "toLowerCase ip = ''::ffff:'' @ rest"
  shows "blocked (isBlockedIPv6 ip) \<longleftrightarrow>
         (case ipv4MappedMatch (toLowerCase ip) of
            Some quad \<Rightarrow> blocked (isBlockedIPv4 quad) | None \<Rightarrow> False) \<or>
         (case ipv4MappedHexMatch (toLowerCase ip) of
            Some (hi, lo) \<Rightarrow>
              blocked (isBlockedIPv4
                (dotted (nat (drop_bit 8 (toInt32 (parseInt16 hi)) AND 0xff))
                        (nat (toInt32 (parseInt16 hi) AND 0xff))
                        (nat (drop_bit 8 (toInt32 (parseInt16 lo)) AND 0xff))
                        (nat (toInt32 (parseInt16 lo) AND 0xff))))
          | None \<Rightarrow> False)"
proof -
  have fg: "(case split (CHR '':'') (toLowerCase ip) of x # _ \<Rightarrow> x | [] \<Rightarrow> []) = []"
    unfolding n by simp
  have ne: "toLowerCase ip \<noteq> ''::1''" unfolding n by simp
  have fc: "\<not> startsWith (toLowerCase ip) ''fc''" "\<not> startsWith (toLowerCase ip) ''fd''"
    unfolding n by (simp_all add: startsWith_def)
  show ?thesis
    unfolding isBlockedIPv6_def Let_def fg
    using ne fc
    by (auto simp: mappedReason_def checkMappedHex_def Let_def split: option.splits prod.splits)
qed

lemma mapped_dotted:
  assumes n: "toLowerCase ip = ''::ffff:'' @ quad"
    and q: "matchesIPv4Pattern quad"
  shows "blocked (isBlockedIPv6 ip) = blocked (isBlockedIPv4 quad)"
proof -
  have m: "ipv4Match quad \<noteq> None" using q by (simp add: matchesIPv4Pattern_iff)
  have d: "ipv4MappedMatch (toLowerCase ip) = Some quad"
    unfolding n using m by (simp add: ipv4MappedMatch_def startsWith_def)
  have "split (CHR '':'') quad = [quad]"
    using quad_no_colon [OF m] by (rule split_no_sep)
  then have h: "ipv4MappedHexMatch (toLowerCase ip) = None"
    unfolding n by (simp add: ipv4MappedHexMatch_def startsWith_def)
  show ?thesis
    unfolding mapped_prefix [OF n] d h by simp
qed

lemma mapped_hex:
  assumes n: "toLowerCase ip = ''::ffff:'' @ hi @ '':'' @ lo"
    and hi: "hex14 hi" and lo: "hex14 lo"
    and o: "a \<le> 255" "b \<le> 255" "c \<le> 255" "d \<le> 255"
    and vh: "hexValue hi = a * 256 + b" and vl: "hexValue lo = c * 256 + d"
  shows "blocked (isBlockedIPv6 ip) = blocked (isBlockedIPv4 (dotted a b c d))"
proof -
  have nodot: "CHR ''.'' \<notin> set (hi @ '':'' @ lo)"
    using hex14_no_dot [OF hi] hex14_no_dot [OF lo] by simp
  then have "split (CHR ''.'') (hi @ '':'' @ lo) = [hi @ '':'' @ lo]"
    by (rule split_no_sep)
  then have "ipv4Match (hi @ '':'' @ lo) = None"
    by (simp add: ipv4Match_def)
  then have d: "ipv4MappedMatch (toLowerCase ip) = None"
    unfolding n by (simp add: ipv4MappedMatch_def)
  have "split (CHR '':'') (hi @ '':'' @ lo) = [hi, lo]"
    using split_append [OF hex14_no_colon [OF hi], of lo] split_no_sep [OF hex14_no_colon [OF lo]]
    by simp
  then have h: "ipv4MappedHexMatch (toLowerCase ip) = Some (hi, lo)"
    unfolding n using hi lo by (simp add: ipv4MappedHexMatch_def startsWith_def)
  have th: "toInt32 (parseInt16 hi) = int (a * 256 + b)"
    using hex14_less [OF hi] by (simp add: parseInt16_hex14 [OF hi] toInt32_small vh)
  have tl: "toInt32 (parseInt16 lo) = int (c * 256 + d)"
    using hex14_less [OF lo] by (simp add: parseInt16_hex14 [OF lo] toInt32_small vl)
  show ?thesis
    unfolding mapped_prefix [OF n] d h
    by (simp only: th tl octets_of_group [OF o(1,2)] octets_of_group [OF o(3,4)]
          option.case prod.case simp_thms)
qed

text \<open>
  Claim C3. The classifier lower-cases its input first, so the statement is about the
  lower-cased text. Blocked are: the loopback \<open>::1\<close>; every text whose first group, of
  one to four hexadecimal digits, has a value \<open>v\<close> with \<open>v AND 0xFFC0 = 0xFE80\<close>;
  every text that starts with \<open>fc\<close> or \<open>fd\<close>. A text \<open>::ffff:\<close> followed by a dotted
  quad is blocked exactly when \<^const>\<open>isBlockedIPv4\<close> blocks the quad, and a text
  \<open>::ffff:\<close> followed by two hexadecimal groups that encode the octets \<open>a.b.c.d\<close> is
  blocked exactly when \<^const>\<open>isBlockedIPv4\<close> blocks \<open>a.b.c.d\<close>: blocked IPv4 addresses
  stay blocked in both encodings, public ones stay public.
\<close>

theorem isBlockedIPv6_classes:
  "blocked (isBlockedIPv6 ''::1'') \<and>
   (\<forall>ip g rest.
      toLowerCase ip = g @ '':'' @ rest \<and> hex14 g \<and> int (hexValue g) AND 0xffc0 = 0xfe80 \<longrightarrow>
      blocked (isBlockedIPv6 ip)) \<and>
   (\<forall>ip. startsWith (toLowerCase ip) ''fc'' \<or> startsWith (toLowerCase ip) ''fd'' \<longrightarrow>
      blocked (isBlockedIPv6 ip)) \<and>
   (\<forall>ip quad.
      toLowerCase ip = ''::ffff:'' @ quad \<and> matchesIPv4Pattern quad \<longrightarrow>
      blocked (isBlockedIPv6 ip) = blocked (isBlockedIPv4 quad)) \<and>
   (\<forall>ip hi lo a b c d.
      toLowerCase ip = ''::ffff:'' @ hi @ '':'' @ lo \<and> hex14 hi \<and> hex14 lo \<and>
      a \<le> 255 \<and> b \<le> 255 \<and> c \<le> 255 \<and> d \<le> 255 \<and>
      hexValue hi = a * 256 + b \<and> hexValue lo = c * 256 + d \<longrightarrow>
      blocked (isBlockedIPv6 ip) = blocked (isBlockedIPv4 (dotted a b c d)))"
proof (intro conjI allI impI)
  show "blocked (isBlockedIPv6 ''::1'')"
    by (simp add: isBlockedIPv6_def toLowerCase_def toLowerCaseChar_def)
next
  fix ip g rest
  assume "toLowerCase ip = g @ '':'' @ rest \<and> hex14 g \<and> int (hexValue g) AND 0xffc0 = 0xfe80"
  then show "blocked (isBlockedIPv6 ip)"
    using linkLocal_blocked by blast
next
  fix ip
  assume "startsWith (toLowerCase ip) ''fc'' \<or> startsWith (toLowerCase ip) ''fd''"
  then show "blocked (isBlockedIPv6 ip)"
    by (rule uniqueLocal_blocked)
next
  fix ip quad
  assume "toLowerCase ip = ''::ffff:'' @ quad \<and> matchesIPv4Pattern quad"
  then show "blocked (isBlockedIPv6 ip) = blocked (isBlockedIPv4 quad)"
    using mapped_dotted by blast
next
  fix ip hi lo a b c d
  assume "toLowerCase ip = ''::ffff:'' @ hi @ '':'' @ lo \<and> hex14 hi \<and> hex14 lo \<and>
      a \<le> 255 \<and> b \<le> 255 \<and> c \<le> 255 \<and> d \<le> 255 \<and>
      hexValue hi = a * 256 + b \<and> hexValue lo = c * 256 + d"
  then show "blocked (isBlockedIPv6 ip) = blocked (isBlockedIPv4 (dotted a b c d))"
    using mapped_hex by blast
qed

lemmas ipv6_eval =
  toLowerCase_def toLowerCaseChar_def hex14_def isLowerHex_def hexValue_def hexDigitVal_def
  startsWith_def char_of_eq_iff

theorem isBlockedIPv6_classes_witness:
  "blocked (isBlockedIPv6 ''FEBF::1'') \<and>
   blocked (isBlockedIPv6 ''FD12::1'') \<and>
   blocked (isBlockedIPv6 ''::ffff:169.254.169.254'') \<and>
   \<not> blocked (isBlockedIPv6 ''::ffff:93.184.216.34'') \<and>
   blocked (isBlockedIPv6 ''::FFFF:7f00:1'') \<and>
   \<not> blocked (isBlockedIPv6 ''::ffff:5db8:d822'')"
proof -
  note C = isBlockedIPv6_classes
  have 1: "blocked (isBlockedIPv6 ''FEBF::1'')"
  proof -
    have "toLowerCase ''FEBF::1'' = ''febf'' @ '':'' @ '':1'' \<and> hex14 ''febf'' \<and>
          int (hexValue ''febf'') AND 0xffc0 = 0xfe80"
      by (simp add: ipv6_eval)
    with C show ?thesis by blast
  qed
  have 2: "blocked (isBlockedIPv6 ''FD12::1'')"
  proof -
    have "startsWith (toLowerCase ''FD12::1'') ''fc'' \<or> startsWith (toLowerCase ''FD12::1'') ''fd''"
      by (simp add: ipv6_eval)
    with C show ?thesis by blast
  qed
  have 3: "blocked (isBlockedIPv6 ''::ffff:169.254.169.254'')"
  proof -
    have "toLowerCase ''::ffff:169.254.169.254'' = ''::ffff:'' @ ''169.254.169.254'' \<and>
          matchesIPv4Pattern ''169.254.169.254''"
      by (simp add: ipv6_eval matchesIPv4Pattern_iff ipv4_eval)
    with C have "blocked (isBlockedIPv6 ''::ffff:169.254.169.254'') =
                 blocked (isBlockedIPv4 ''169.254.169.254'')"
      by blast
    then show ?thesis by (simp add: ipv4_eval)
  qed
  have 4: "\<not> blocked (isBlockedIPv6 ''::ffff:93.184.216.34'')"
  proof -
    have "toLowerCase ''::ffff:93.184.216.34'' = ''::ffff:'' @ ''93.184.216.34'' \<and>
          matchesIPv4Pattern ''93.184.216.34''"
      by (simp add: ipv6_eval matchesIPv4Pattern_iff ipv4_eval)
    with C have "blocked (isBlockedIPv6 ''::ffff:93.184.216.34'') =
                 blocked (isBlockedIPv4 ''93.184.216.34'')"
      by blast
    then show ?thesis by (simp add: ipv4_eval)
  qed
  have 5: "blocked (isBlockedIPv6 ''::FFFF:7f00:1'')"
  proof -
    have "toLowerCase ''::FFFF:7f00:1'' = ''::ffff:'' @ ''7f00'' @ '':'' @ ''1'' \<and>
          hex14 ''7f00'' \<and> hex14 ''1'' \<and>
          (127::nat) \<le> 255 \<and> (0::nat) \<le> 255 \<and> (0::nat) \<le> 255 \<and> (1::nat) \<le> 255 \<and>
          hexValue ''7f00'' = 127 * 256 + 0 \<and> hexValue ''1'' = 0 * 256 + 1"
      by (simp add: ipv6_eval)
    with C have "blocked (isBlockedIPv6 ''::FFFF:7f00:1'') =
                 blocked (isBlockedIPv4 (dotted 127 0 0 1))"
      by blast
    moreover have "ipv4Match (dotted 127 0 0 1) = Some (127, 0, 0, 1)"
      by (rule ipv4Match_dotted_numbers) simp_all
    ultimately show ?thesis by (simp add: isBlockedIPv4_def)
  qed
  have 6: "\<not> blocked (isBlockedIPv6 ''::ffff:5db8:d822'')"
  proof -
    have "toLowerCase ''::ffff:5db8:d822'' = ''::ffff:'' @ ''5db8'' @ '':'' @ ''d822'' \<and>
          hex14 ''5db8'' \<and> hex14 ''d822'' \<and>
          (93::nat) \<le> 255 \<and> (184::nat) \<le> 255 \<and> (216::nat) \<le> 255 \<and> (34::nat) \<le> 255 \<and>
          hexValue ''5db8'' = 93 * 256 + 184 \<and> hexValue ''d822'' = 216 * 256 + 34"
      by (simp add: ipv6_eval)
    with C have "blocked (isBlockedIPv6 ''::ffff:5db8:d822'') =
                 blocked (isBlockedIPv4 (dotted 93 184 216 34))"
      by blast
    moreover have "ipv4Match (dotted 93 184 216 34) = Some (93, 184, 216, 34)"
      by (rule ipv4Match_dotted_numbers) simp_all
    ultimately show ?thesis by (simp add: isBlockedIPv4_def)
  qed
  from 1 2 3 4 5 6 show ?thesis by blast
qed

section \<open>Properties of the URL validation\<close>

lemma isBlockedIPv4_reason:
  assumes "blocked (isBlockedIPv4 ip)"
  shows "\<exists>t. reason (isBlockedIPv4 ip) = Some t \<and> t \<noteq> []"
  using assms
  by (auto simp: isBlockedIPv4_def split: option.splits prod.splits if_splits)

lemma isBlockedIPv6_reason:
  assumes "blocked (isBlockedIPv6 ip)"
  shows "\<exists>t. reason (isBlockedIPv6 ip) = Some t \<and> t \<noteq> []"
  using assms
  by (auto simp: isBlockedIPv6_def mappedReason_def checkMappedHex_def Let_def
      split: option.splits prod.splits if_splits)

lemma checkAddresses_Inl:
  assumes "checkAddresses as first = Inl ipCheck"
  shows "blocked ipCheck \<and> (\<exists>a \<in> set as. (family a = 4 \<or> family a = 6) \<and> addressBlocked a)"
  using assms
proof (induction as arbitrary: first)
  case Nil
  then show ?case by simp
next
  case (Cons a as)
  from Cons.prems consider
      (head) "(family a = 4 \<or> family a = 6) \<and> addressBlocked a \<and> blocked ipCheck"
    | (tail) first' where "checkAddresses as first' = Inl ipCheck"
    by (auto simp: Let_def addressBlocked_def split: if_splits)
  then show ?case
  proof cases
    case head
    then show ?thesis by auto
  next
    case tail
    from Cons.IH [OF tail] show ?thesis by auto
  qed
qed

lemma checkAddresses_Inr:
  assumes "checkAddresses as first = Inr f"
    and "\<forall>a \<in> set as. family a = 4 \<or> family a = 6"
  shows "(\<forall>a \<in> set as. \<not> addressBlocked a) \<and>
         (f = first \<or> (\<exists>a \<in> set as. f = Some (address a)))"
  using assms
proof (induction as arbitrary: first)
  case Nil
  then show ?case by simp
next
  case (Cons a as)
  let ?next = "if falsy first then Some (address a) else first"
  have nb: "\<not> addressBlocked a" and rest: "checkAddresses as ?next = Inr f"
    using Cons.prems by (auto simp: Let_def addressBlocked_def split: if_splits)
  from Cons.IH [OF rest] Cons.prems(2)
  have ih: "(\<forall>a \<in> set as. \<not> addressBlocked a) \<and>
            (f = ?next \<or> (\<exists>a \<in> set as. f = Some (address a)))"
    by simp
  with nb show ?case by (auto split: if_splits)
qed

lemma checkAddresses_Inr_first:
  assumes "checkAddresses as None = Inr f"
    and "\<forall>a \<in> set as. family a = 4 \<or> family a = 6"
    and "as \<noteq> []"
  shows "\<exists>a \<in> set as. f = Some (address a) \<and> \<not> addressBlocked a"
proof -
  obtain a rest where as: "as = a # rest" using assms(3) by (cases as) auto
  have rest: "checkAddresses rest (Some (address a)) = Inr f"
    using assms(1,2) unfolding as
    by (auto simp: Let_def falsy_def split: if_splits)
  from checkAddresses_Inr [OF assms(1,2)] have nb: "\<forall>a \<in> set as. \<not> addressBlocked a"
    by simp
  from checkAddresses_Inr [OF rest] assms(2)
  have "f = Some (address a) \<or> (\<exists>b \<in> set rest. f = Some (address b))"
    unfolding as by simp
  with nb show ?thesis unfolding as by auto
qed

text \<open>The lookup branch, once the guards before it are passed.\<close>

lemma validateUrl_lookup_branch:
  assumes "newURL urlString = Inr parsed"
    and "protocol parsed = ''http:'' \<or> protocol parsed = ''https:''"
    and "h = toLowerCase (url_hostname parsed)"
    and "h \<noteq> ''localhost''" "h \<noteq> ''localhost.localdomain''"
    and "ipv4Match h = None"
    and "\<not> (startsWith h ''['' \<and> endsWith h '']'')"
  shows "validateUrl newURL lookup urlString =
         (case resolveAndCheck lookup h of
            Inr r \<Rightarrow> Inr r
          | Inl dnsError \<Rightarrow>
              (case errorMessage dnsError of
                 Inl t \<Rightarrow> Inl t
               | Inr message \<Rightarrow>
                   Inr (url_invalid (Some (''DNS resolution failed: '' @ message)))))"
proof -
  have "h \<noteq> ''[::1]''"
    using assms(7) by (auto simp: startsWith_def endsWith_def)
  then show ?thesis
    using assms unfolding validateUrl_def Let_def by auto
qed

lemma resolveAndCheck_invalid_reason:
  assumes "resolveAndCheck lookup h = Inr r" and "\<not> valid r"
  shows "\<exists>e. error r = Some e \<and> e \<noteq> []"
  using assms
  by (auto simp: resolveAndCheck_def url_invalid_def url_valid_def
      split: sum.splits if_splits)

lemmas url_eval =
  validateUrl_def resolveAndCheck_def urlTable_def knownUrls_def createMockDns_def publicDns_def
  url_invalid_def url_valid_def errorMessage_def falsy_def reasonText_def addressBlocked_def
  endsWith_def

text \<open>
  What holds of the result whenever the failure of the resolver, if it fails, has a text:
  the promise is fulfilled with a result, an invalid result carries a non-empty error
  text, and a malformed URL, a scheme other than http and https, the host names
  localhost and localhost.localdomain, the literal \<open>[::1]\<close>, and a failing resolver each
  give an invalid result with the message of that case.
\<close>

lemma validateUrl_structured_result:
  assumes conv: "\<forall>p e. newURL urlString = Inr p \<and> lookup (toLowerCase (url_hostname p)) = Inl e \<longrightarrow>
                   (\<exists>m. errorMessage e = Inr m)"
  shows "\<exists>r. validateUrl newURL lookup urlString = Inr r \<and>
     (\<not> valid r \<longrightarrow> (\<exists>e. error r = Some e \<and> e \<noteq> [])) \<and>
     (\<forall>t. newURL urlString = Inl t \<longrightarrow>
        \<not> valid r \<and> error r = Some ''Invalid URL format'') \<and>
     (\<forall>p. newURL urlString = Inr p \<and> protocol p \<noteq> ''http:'' \<and> protocol p \<noteq> ''https:'' \<longrightarrow>
        \<not> valid r \<and> error r = Some ''Only http and https protocols are allowed'') \<and>
     (\<forall>p. newURL urlString = Inr p \<and> (protocol p = ''http:'' \<or> protocol p = ''https:'') \<and>
          (toLowerCase (url_hostname p) = ''localhost'' \<or>
           toLowerCase (url_hostname p) = ''localhost.localdomain'') \<longrightarrow>
        \<not> valid r \<and> error r = Some ''Access to localhost is not allowed'') \<and>
     (\<forall>p. newURL urlString = Inr p \<and> (protocol p = ''http:'' \<or> protocol p = ''https:'') \<and>
          toLowerCase (url_hostname p) = ''[::1]'' \<longrightarrow>
        \<not> valid r \<and> error r = Some ''Access to IPv6 localhost is not allowed'') \<and>
     (\<forall>p h e m. newURL urlString = Inr p \<and> (protocol p = ''http:'' \<or> protocol p = ''https:'') \<and>
          h = toLowerCase (url_hostname p) \<and>
          h \<noteq> ''localhost'' \<and> h \<noteq> ''localhost.localdomain'' \<and>
          ipv4Match h = None \<and> \<not> (startsWith h ''['' \<and> endsWith h '']'') \<and>
          lookup h = Inl e \<and> errorMessage e = Inr m \<longrightarrow>
        \<not> valid r \<and> error r = Some (''DNS resolution failed: '' @ m))"
proof (cases "newURL urlString")
  case (Inl t)
  then show ?thesis by (simp add: validateUrl_def url_invalid_def)
next
  case (Inr parsed)
  define h where "h = toLowerCase (url_hostname parsed)"
  consider
      (scheme) "protocol parsed \<noteq> ''http:''" "protocol parsed \<noteq> ''https:''"
    | (name) "protocol parsed = ''http:'' \<or> protocol parsed = ''https:''"
        "h = ''localhost'' \<or> h = ''localhost.localdomain''"
    | (loop6) "protocol parsed = ''http:'' \<or> protocol parsed = ''https:''" "h = ''[::1]''"
    | (lit4) "protocol parsed = ''http:'' \<or> protocol parsed = ''https:''"
        "h \<noteq> ''localhost''" "h \<noteq> ''localhost.localdomain''" "h \<noteq> ''[::1]''"
        "ipv4Match h \<noteq> None"
    | (lit6) "protocol parsed = ''http:'' \<or> protocol parsed = ''https:''"
        "h \<noteq> ''localhost''" "h \<noteq> ''localhost.localdomain''" "h \<noteq> ''[::1]''"
        "ipv4Match h = None" "startsWith h ''['' \<and> endsWith h '']''"
    | (dns) "protocol parsed = ''http:'' \<or> protocol parsed = ''https:''"
        "h \<noteq> ''localhost''" "h \<noteq> ''localhost.localdomain''"
        "ipv4Match h = None" "\<not> (startsWith h ''['' \<and> endsWith h '']'')"
    by blast
  then show ?thesis
  proof cases
    case scheme
    with Inr show ?thesis by (simp add: validateUrl_def url_invalid_def)
  next
    case name
    with Inr show ?thesis
      by (auto simp: validateUrl_def url_invalid_def h_def Let_def ipv4_eval
          startsWith_def endsWith_def)
  next
    case loop6
    with Inr show ?thesis
      by (auto simp: validateUrl_def url_invalid_def h_def Let_def startsWith_def endsWith_def)
  next
    case lit4
    have v: "validateUrl newURL lookup urlString =
          (if blocked (isBlockedIPv4 h) then Inr (url_invalid (reason (isBlockedIPv4 h)))
           else Inr (url_valid (Some h) h))"
      using Inr lit4 unfolding validateUrl_def Let_def h_def by auto
    show ?thesis
    proof (cases "blocked (isBlockedIPv4 h)")
      case True
      from isBlockedIPv4_reason [OF True] v True Inr lit4 show ?thesis
        by (auto simp: url_invalid_def h_def)
    next
      case False
      with v Inr lit4 show ?thesis by (auto simp: url_valid_def h_def)
    qed
  next
    case lit6
    let ?ip = "butlast (tl h)"
    have v: "validateUrl newURL lookup urlString =
          (if blocked (isBlockedIPv6 ?ip) then Inr (url_invalid (reason (isBlockedIPv6 ?ip)))
           else Inr (url_valid (Some ?ip) h))"
      using Inr lit6 unfolding validateUrl_def Let_def h_def by auto
    show ?thesis
    proof (cases "blocked (isBlockedIPv6 ?ip)")
      case True
      from isBlockedIPv6_reason [OF True] v True Inr lit6 show ?thesis
        by (auto simp: url_invalid_def h_def)
    next
      case False
      with v Inr lit6 show ?thesis by (auto simp: url_valid_def h_def)
    qed
  next
    case dns
    note v = validateUrl_lookup_branch [where newURL = newURL and urlString = urlString
        and lookup = lookup, OF Inr dns(1) h_def dns(2-5)]
    have hne: "h \<noteq> ''[::1]''"
      using dns(5) by (auto simp: startsWith_def endsWith_def)
    show ?thesis
    proof (cases "resolveAndCheck lookup h")
      case (Inl e)
      then have le: "lookup h = Inl e"
        by (auto simp: resolveAndCheck_def split: sum.splits if_splits)
      with conv Inr obtain m where m: "errorMessage e = Inr m"
        unfolding h_def by blast
      from v Inl le m Inr dns hne show ?thesis
        by (auto simp: url_invalid_def h_def)
    next
      case (Inr r)
      then have "\<exists>as. lookup h = Inr as"
        by (auto simp: resolveAndCheck_def split: sum.splits)
      with v Inr \<open>newURL urlString = Inr parsed\<close> dns hne
        resolveAndCheck_invalid_reason [OF Inr]
      show ?thesis by (auto simp: h_def)
    qed
  qed
qed


text \<open>The failures with a text, at concrete inputs.\<close>

lemma validateUrl_structured_result_examples:
  "validateUrl (urlTable knownUrls) (createMockDns []) ''not-a-url''
     = Inr (url_invalid (Some ''Invalid URL format'')) \<and>
   validateUrl (urlTable knownUrls) (createMockDns []) ''ftp://example.com/file''
     = Inr (url_invalid (Some ''Only http and https protocols are allowed'')) \<and>
   validateUrl (urlTable knownUrls) (createMockDns []) ''http://localhost''
     = Inr (url_invalid (Some ''Access to localhost is not allowed'')) \<and>
   validateUrl (urlTable knownUrls) (createMockDns []) ''https://example.com''
     = Inr (url_invalid (Some ''DNS resolution failed: getaddrinfo ENOTFOUND example.com''))"
  by (simp add: url_eval ipv4_eval startsWith_def toLowerCase_def toLowerCaseChar_def)

text \<open>
  Claim C1, as stated, at the URL \<open>http://localhost\<close>: the host is a name, not a literal
  address, and the resolver answers with one public IPv4 address, yet the result is
  invalid. The name is refused before the resolver is asked.
\<close>

theorem validateUrl_localhost_counterexample:
  "urlTable knownUrls ''http://localhost''
     = Inr \<lparr>protocol = ''http:'', url_hostname = ''localhost''\<rparr> \<and>
   ipv4Match ''localhost'' = None \<and>
   \<not> (startsWith ''localhost'' ''['' \<and> endsWith ''localhost'' '']'') \<and>
   createMockDns publicDns ''localhost'' = Inr [\<lparr>address = ''93.184.216.34'', family = 4\<rparr>] \<and>
   \<not> addressBlocked \<lparr>address = ''93.184.216.34'', family = 4\<rparr> \<and>
   validateUrl (urlTable knownUrls) (createMockDns publicDns) ''http://localhost''
     = Inr (url_invalid (Some ''Access to localhost is not allowed''))"
  by (simp add: url_eval ipv4_eval startsWith_def toLowerCase_def toLowerCaseChar_def)

text \<open>
  Claim C1, amended. Take a URL whose scheme is http or https and whose lower-cased
  host is neither localhost nor localhost.localdomain nor a literal address, and let the
  resolver answer for that host with a non-empty list of addresses, each of family 4 or
  6. Then the result is valid exactly when no address of the answer is classified as
  blocked by the classifier of its family; and a valid result carries the lower-cased
  host and, as resolved address, one of the addresses of the answer that is not blocked.
\<close>

theorem validateUrl_resolved_addresses:
  assumes "newURL urlString = Inr parsed"
    and "protocol parsed = ''http:'' \<or> protocol parsed = ''https:''"
    and "h = toLowerCase (url_hostname parsed)"
    and "h \<noteq> ''localhost''" "h \<noteq> ''localhost.localdomain''"
    and "ipv4Match h = None"
    and "\<not> (startsWith h ''['' \<and> endsWith h '']'')"
    and "lookup h = Inr addresses"
    and "addresses \<noteq> []"
    and "\<forall>a \<in> set addresses. family a = 4 \<or> family a = 6"
  shows "\<exists>r. validateUrl newURL lookup urlString = Inr r \<and>
           (valid r \<longleftrightarrow> (\<forall>a \<in> set addresses. \<not> addressBlocked a)) \<and>
           (valid r \<longrightarrow>
              hostname r = Some h \<and>
              (\<exists>a \<in> set addresses. resolvedIp r = Some (address a) \<and> \<not> addressBlocked a))"
proof -
  note v = validateUrl_lookup_branch [where newURL = newURL and urlString = urlString
      and lookup = lookup, OF assms(1-7)]
  show ?thesis
  proof (cases "checkAddresses addresses None")
    case (Inl ipCheck)
    from checkAddresses_Inl [OF Inl] have "\<exists>a \<in> set addresses. addressBlocked a"
      by blast
    moreover have "validateUrl newURL lookup urlString =
        Inr (url_invalid (Some (''DNS resolved to blocked IP: '' @ reasonText (reason ipCheck))))"
      unfolding v using assms(8,9) Inl by (simp add: resolveAndCheck_def)
    ultimately show ?thesis by (auto simp: url_invalid_def)
  next
    case (Inr f)
    from checkAddresses_Inr_first [OF Inr assms(10,9)]
    obtain a where a: "a \<in> set addresses" "f = Some (address a)" "\<not> addressBlocked a"
      by blast
    from checkAddresses_Inr [OF Inr assms(10)] have nb: "\<forall>a \<in> set addresses. \<not> addressBlocked a"
      by simp
    have "validateUrl newURL lookup urlString = Inr (url_valid f h)"
      unfolding v using assms(8,9) Inr by (simp add: resolveAndCheck_def)
    with a nb show ?thesis by (auto simp: url_valid_def)
  qed
qed

theorem validateUrl_resolved_addresses_witness:
  "(\<exists>r. validateUrl (urlTable knownUrls) (createMockDns publicDns) ''https://example.com'' = Inr r \<and>
        valid r \<and> hostname r = Some ''example.com'' \<and> resolvedIp r = Some ''93.184.216.34'') \<and>
   (\<exists>r. validateUrl (urlTable knownUrls) (createMockDns publicDns) ''https://mixed.example'' = Inr r \<and>
        \<not> valid r)"
proof -
  let ?U = "urlTable knownUrls" and ?D = "createMockDns publicDns"
  have low: "toLowerCase ''example.com'' = ''example.com''"
    "toLowerCase ''mixed.example'' = ''mixed.example''"
    by (simp_all add: toLowerCase_def toLowerCaseChar_def)
  have pub: "\<not> addressBlocked \<lparr>address = ''93.184.216.34'', family = 4\<rparr>"
    and loc: "addressBlocked \<lparr>address = ''127.0.0.1'', family = 4\<rparr>"
    by (simp_all add: addressBlocked_def ipv4_eval)
  have "\<exists>r. validateUrl ?U ?D ''https://example.com'' = Inr r \<and>
           (valid r \<longleftrightarrow>
              (\<forall>a \<in> set [\<lparr>address = ''93.184.216.34'', family = 4\<rparr>]. \<not> addressBlocked a)) \<and>
           (valid r \<longrightarrow>
              hostname r = Some ''example.com'' \<and>
              (\<exists>a \<in> set [\<lparr>address = ''93.184.216.34'', family = 4\<rparr>].
                  resolvedIp r = Some (address a) \<and> \<not> addressBlocked a))"
    by (rule validateUrl_resolved_addresses
          [where parsed = "\<lparr>protocol = ''https:'', url_hostname = ''example.com''\<rparr>"])
       (simp_all add: urlTable_def knownUrls_def createMockDns_def publicDns_def low ipv4_eval
          startsWith_def)
  with pub have 1: "\<exists>r. validateUrl ?U ?D ''https://example.com'' = Inr r \<and>
        valid r \<and> hostname r = Some ''example.com'' \<and> resolvedIp r = Some ''93.184.216.34''"
    by auto
  have "\<exists>r. validateUrl ?U ?D ''https://mixed.example'' = Inr r \<and>
           (valid r \<longleftrightarrow>
              (\<forall>a \<in> set [\<lparr>address = ''93.184.216.34'', family = 4\<rparr>,
                           \<lparr>address = ''127.0.0.1'', family = 4\<rparr>]. \<not> addressBlocked a)) \<and>
           (valid r \<longrightarrow>
              hostname r = Some ''mixed.example'' \<and>
              (\<exists>a \<in> set [\<lparr>address = ''93.184.216.34'', family = 4\<rparr>,
                           \<lparr>address = ''127.0.0.1'', family = 4\<rparr>].
                  resolvedIp r = Some (address a) \<and> \<not> addressBlocked a))"
    by (rule validateUrl_resolved_addresses
          [where parsed = "\<lparr>protocol = ''https:'', url_hostname = ''mixed.example''\<rparr>"])
       (simp_all add: urlTable_def knownUrls_def createMockDns_def publicDns_def low ipv4_eval
          startsWith_def)
  with loc have 2: "\<exists>r. validateUrl ?U ?D ''https://mixed.example'' = Inr r \<and> \<not> valid r"
    by auto
  from 1 2 show ?thesis by blast
qed

section \<open>Properties of the concurrency gate\<close>

text \<open>The invariant that carries the induction: units held and free permits add up.\<close>

lemma step_balance:
  assumes "step r x = Some r'"
    and "int (held r) + permits (gate r) = capacity"
    and "0 \<le> permits (gate r)"
    and "waiting (gate r) \<noteq> [] \<longrightarrow> permits (gate r) = 0"
    and "suspended r = resumed r @ waiting (gate r)"
  shows "int (held r') + permits (gate r') = capacity \<and>
         0 \<le> permits (gate r') \<and>
         (waiting (gate r') \<noteq> [] \<longrightarrow> permits (gate r') = 0) \<and>
         suspended r' = resumed r' @ waiting (gate r')"
proof (cases x)
  case (Acquire c)
  with assms show ?thesis
    by (auto simp: acquire_def split: if_splits)
next
  case TryAcquire
  with assms show ?thesis
    by (auto simp: tryAcquire_def split: if_splits)
next
  case Release
  with assms show ?thesis
    by (cases "waiting (gate r)") (auto simp: release_def split: if_splits)
qed

lemma run_balance:
  assumes "run r xs = Some r'"
    and "int (held r) + permits (gate r) = capacity"
    and "0 \<le> permits (gate r)"
    and "waiting (gate r) \<noteq> [] \<longrightarrow> permits (gate r) = 0"
    and "suspended r = resumed r @ waiting (gate r)"
  shows "int (held r') + permits (gate r') = capacity \<and>
         0 \<le> permits (gate r') \<and>
         (waiting (gate r') \<noteq> [] \<longrightarrow> permits (gate r') = 0) \<and>
         suspended r' = resumed r' @ waiting (gate r')"
  using assms
proof (induction xs arbitrary: r)
  case Nil
  then show ?case by simp
next
  case (Cons x xs)
  from Cons.prems(1) obtain r1 where s: "step r x = Some r1" and t: "run r1 xs = Some r'"
    by (auto split: option.splits)
  from step_balance [OF s Cons.prems(2-5)] Cons.IH [OF t] show ?case by blast
qed

lemma run_append:
  "run r (xs @ ys) = (case run r xs of None \<Rightarrow> None | Some r' \<Rightarrow> run r' ys)"
  by (induction xs arbitrary: r) (auto split: option.splits)

lemma run_take:
  assumes "run r xs = Some r'"
  shows "\<exists>r1. run r (take k xs) = Some r1"
proof -
  have "run r (take k xs @ drop k xs) = Some r'" using assms by simp
  then show ?thesis unfolding run_append by (auto split: option.splits)
qed

text \<open>
  Claim C7. Take a gate of capacity at least 0 and any sequence of operations in which
  every release returns a unit that is held. After every prefix of the sequence: the
  units held do not exceed the capacity; with no caller waiting, available is between 0
  and the capacity; with a caller waiting, available is 0; and the callers resumed so
  far, followed by those still waiting, are the suspended callers in arrival order, so
  that resumption is first in, first out.
\<close>

theorem gate_invariants_hold:
  assumes "0 \<le> capacity"
    and "run (start capacity) ops = Some r"
  shows "\<forall>k \<le> length ops. \<exists>r'. run (start capacity) (take k ops) = Some r' \<and>
           gate_invariants capacity r'"
proof (intro allI impI)
  fix k
  from run_take [OF assms(2)] obtain r1 where r1: "run (start capacity) (take k ops) = Some r1"
    by blast
  have "int (held r1) + permits (gate r1) = capacity \<and>
        0 \<le> permits (gate r1) \<and>
        (waiting (gate r1) \<noteq> [] \<longrightarrow> permits (gate r1) = 0) \<and>
        suspended r1 = resumed r1 @ waiting (gate r1)"
    using assms(1) by (intro run_balance [OF r1]) (simp_all add: start_def Semaphore_def)
  then have "gate_invariants capacity r1"
    by (auto simp: gate_invariants_def available_def)
  with r1 show "\<exists>r'. run (start capacity) (take k ops) = Some r' \<and> gate_invariants capacity r'"
    by blast
qed

lemmas gate_eval =
  start_def Semaphore_def acquire_def tryAcquire_def release_def available_def
  gate_invariants_def

text \<open>
  The scenario of the specification: capacity 1, one holder, three callers queue up and
  three releases resume them in their order of arrival.
\<close>

theorem gate_invariants_hold_witness:
  "\<exists>r'. run (start 1) [TryAcquire, Acquire 1, Acquire 2, Acquire 3, Release, Release, Release]
           = Some r' \<and>
         gate_invariants 1 r' \<and> resumed r' = [1, 2, 3] \<and> waiting (gate r') = []"
proof -
  let ?ops = "[TryAcquire, Acquire 1, Acquire 2, Acquire 3, Release, Release, Release]"
  have r: "run (start 1) ?ops =
     Some \<lparr>gate = \<lparr>permits = 0, waiting = []\<rparr>, held = 1,
           suspended = [1, 2, 3], resumed = [1, 2, 3]\<rparr>"
    by (simp add: gate_eval)
  have "\<forall>k \<le> length ?ops. \<exists>r'. run (start 1) (take k ?ops) = Some r' \<and> gate_invariants 1 r'"
    by (rule gate_invariants_hold [of 1 ?ops, OF _ r]) simp
  then have "\<exists>r'. run (start 1) (take (length ?ops) ?ops) = Some r' \<and> gate_invariants 1 r'"
    by blast
  then have "\<exists>r'. run (start 1) ?ops = Some r' \<and> gate_invariants 1 r'"
    by (simp only: take_all order_refl)
  with r show ?thesis by auto
qed

text \<open>
  Claim C8. \<open>tryAcquire\<close> returns true and takes one permit exactly when a permit is
  available, and otherwise returns false and leaves the gate as it is. \<open>release\<close> resumes
  the caller at the head of the queue, the one suspended longest since \<open>acquire\<close> appends
  at the end, and leaves the counter alone; with an empty queue it adds one to the
  counter. With capacity 1: true, then false, and true again after a release.
\<close>

theorem tryAcquire_release_behaviour:
  "(fst (tryAcquire s) \<longleftrightarrow> available s > 0) \<and>
   (available s > 0 \<longrightarrow>
      available (snd (tryAcquire s)) = available s - 1 \<and>
      waiting (snd (tryAcquire s)) = waiting s) \<and>
   (\<not> available s > 0 \<longrightarrow> snd (tryAcquire s) = s) \<and>
   (\<not> available s > 0 \<longrightarrow> acquire c s = (False, s\<lparr>waiting := waiting s @ [c]\<rparr>)) \<and>
   (\<forall>w ws. waiting s = w # ws \<longrightarrow>
      release s = (Some w, s\<lparr>waiting := ws\<rparr>) \<and>
      available (snd (release s)) = available s) \<and>
   (waiting s = [] \<longrightarrow>
      fst (release s) = None \<and>
      available (snd (release s)) = available s + 1 \<and>
      waiting (snd (release s)) = []) \<and>
   (let s0 = Semaphore 1;
        (r1, s1) = tryAcquire s0;
        (r2, s2) = tryAcquire s1;
        (w, s3) = release s2;
        (r3, s4) = tryAcquire s3
    in r1 \<and> \<not> r2 \<and> w = None \<and> r3)"
proof (intro conjI allI impI)
  show "fst (tryAcquire s) \<longleftrightarrow> available s > 0"
    by (simp add: tryAcquire_def available_def)
  show "available (snd (tryAcquire s)) = available s - 1" if "available s > 0"
    using that by (simp add: tryAcquire_def available_def)
  show "waiting (snd (tryAcquire s)) = waiting s" if "available s > 0"
    using that by (simp add: tryAcquire_def available_def)
  show "snd (tryAcquire s) = s" if "\<not> available s > 0"
    using that by (simp add: tryAcquire_def available_def)
  show "acquire c s = (False, s\<lparr>waiting := waiting s @ [c]\<rparr>)" if "\<not> available s > 0"
    using that by (simp add: acquire_def available_def)
  show "release s = (Some w, s\<lparr>waiting := ws\<rparr>)" if "waiting s = w # ws" for w ws
    using that by (simp add: release_def)
  show "available (snd (release s)) = available s" if "waiting s = w # ws" for w ws
    using that by (simp add: release_def available_def)
  show "fst (release s) = None" if "waiting s = []"
    using that by (simp add: release_def)
  show "available (snd (release s)) = available s + 1" if "waiting s = []"
    using that by (simp add: release_def available_def)
  show "waiting (snd (release s)) = []" if "waiting s = []"
    using that by (simp add: release_def)
  show "let s0 = Semaphore 1;
            (r1, s1) = tryAcquire s0;
            (r2, s2) = tryAcquire s1;
            (w, s3) = release s2;
            (r3, s4) = tryAcquire s3
        in r1 \<and> \<not> r2 \<and> w = None \<and> r3"
    by (simp add: tryAcquire_def release_def Semaphore_def)
qed

theorem tryAcquire_release_behaviour_witness:
  "release \<lparr>permits = 0, waiting = [7, 8]\<rparr> = (Some 7, \<lparr>permits = 0, waiting = [8]\<rparr>) \<and>
   fst (tryAcquire \<lparr>permits = 2, waiting = []\<rparr>) \<and>
   available (snd (tryAcquire \<lparr>permits = 2, waiting = []\<rparr>)) = 1 \<and>
   snd (tryAcquire \<lparr>permits = 0, waiting = [7, 8]\<rparr>) = \<lparr>permits = 0, waiting = [7, 8]\<rparr>"
  using tryAcquire_release_behaviour [of "\<lparr>permits = 0, waiting = [7, 8]\<rparr>"]
    tryAcquire_release_behaviour [of "\<lparr>permits = 2, waiting = []\<rparr>"]
  by (simp add: available_def)

section \<open>Properties of the output path validation\<close>

lemma startsWith_iff: "startsWith s p \<longleftrightarrow> (\<exists>b. s = p @ b)"
proof
  assume "startsWith s p"
  then have "s = p @ drop (length p) s"
    unfolding startsWith_def by (metis append_take_drop_id)
  then show "\<exists>b. s = p @ b" ..
next
  assume "\<exists>b. s = p @ b"
  then show "startsWith s p" by (auto simp: startsWith_def)
qed

lemma includesStr_iff: "includesStr s p \<longleftrightarrow> containsText s p"
proof (induction s)
  case Nil
  then show ?case by (auto simp: containsText_def)
next
  case (Cons c cs)
  have "containsText (c # cs) p \<longleftrightarrow> startsWith (c # cs) p \<or> containsText cs p"
  proof
    assume "containsText (c # cs) p"
    then obtain a b where ab: "c # cs = a @ p @ b" by (auto simp: containsText_def)
    show "startsWith (c # cs) p \<or> containsText cs p"
    proof (cases a)
      case Nil
      with ab show ?thesis by (auto simp: startsWith_iff)
    next
      case (Cons x a')
      with ab have "cs = a' @ p @ b" by simp
      then show ?thesis by (auto simp: containsText_def)
    qed
  next
    assume "startsWith (c # cs) p \<or> containsText cs p"
    then show "containsText (c # cs) p"
    proof
      assume "startsWith (c # cs) p"
      then obtain b where "c # cs = p @ b" by (auto simp: startsWith_iff)
      then have "c # cs = [] @ p @ b" by simp
      then show ?thesis unfolding containsText_def by blast
    next
      assume "containsText cs p"
      then obtain a b where "cs = a @ p @ b" by (auto simp: containsText_def)
      then have "c # cs = (c # a) @ p @ b" by simp
      then show ?thesis unfolding containsText_def by blast
    qed
  qed
  with Cons show ?case by simp
qed

lemma trim_empty_iff: "trim s = [] \<longleftrightarrow> list_all isWhiteSpace s"
proof -
  have "trim s = [] \<longleftrightarrow> (\<forall>x \<in> set (dropWhile isWhiteSpace s). isWhiteSpace x)"
    by (simp add: trim_def dropWhile_eq_Nil_conv)
  also have "\<dots> \<longleftrightarrow> dropWhile isWhiteSpace s = []"
  proof
    assume a: "\<forall>x \<in> set (dropWhile isWhiteSpace s). isWhiteSpace x"
    show "dropWhile isWhiteSpace s = []"
    proof (rule ccontr)
      assume n: "dropWhile isWhiteSpace s \<noteq> []"
      then have "\<not> isWhiteSpace (hd (dropWhile isWhiteSpace s))" by (rule hd_dropWhile)
      moreover from n have "hd (dropWhile isWhiteSpace s) \<in> set (dropWhile isWhiteSpace s)"
        by simp
      ultimately show False using a by blast
    qed
  next
    assume e: "dropWhile isWhiteSpace s = []"
    show "\<forall>x \<in> set (dropWhile isWhiteSpace s). isWhiteSpace x"
      unfolding e by simp
  qed
  also have "\<dots> \<longleftrightarrow> list_all isWhiteSpace s"
    by (simp add: dropWhile_eq_Nil_conv list_all_iff)
  finally show ?thesis .
qed

lemma nullByte_not_blank:
  assumes "containsText s [CHR 0x00] \<or> containsText s ''%00''"
  shows "trim s \<noteq> []"
proof -
  have "\<exists>x \<in> set s. \<not> isWhiteSpace x"
  proof -
    from assms consider a b where "s = a @ [CHR 0x00] @ b" | a b where "s = a @ ''%00'' @ b"
      by (auto simp: containsText_def)
    then show ?thesis
    proof cases
      case 1
      then have "CHR 0x00 \<in> set s" by simp
      moreover have "\<not> isWhiteSpace (CHR 0x00)" by (simp add: isWhiteSpace_def)
      ultimately show ?thesis by blast
    next
      case 2
      then have "CHR ''%'' \<in> set s" by simp
      moreover have "\<not> isWhiteSpace (CHR ''%'')" by (simp add: isWhiteSpace_def)
      ultimately show ?thesis by blast
    qed
  qed
  then show ?thesis by (auto simp: trim_empty_iff list_all_iff)
qed

lemma withinAllowed_cong:
  assumes "\<forall>d \<in> set ds. rp1 d = rp2 d"
  shows "withinAllowed cwd rp1 ds p = withinAllowed cwd rp2 ds p"
  using assms by (induction ds) (simp_all add: Let_def)

lemma resolveRealPath_cong:
  assumes "rp1 t = rp2 t" "rp1 (dirname t) = rp2 (dirname t)"
  shows "resolveRealPath rp1 t = resolveRealPath rp2 t"
  using assms by (simp add: resolveRealPath_def Let_def split: sum.splits)

lemma resolveAndCheck_cong:
  assumes "lookup1 h = lookup2 h"
  shows "resolveAndCheck lookup1 h = resolveAndCheck lookup2 h"
  using assms by (simp add: resolveAndCheck_def)

lemmas path_eval =
  validateOutputPath_def resolveRealPath_def targetPath_def resolve_def normalizeString_def
  normalizePath_def join_def dirname_def relative_def pathSegments_def path_valid_def
  path_invalid_def buildMockFs_def createMockFs_def TEST_CONFIG_def trim_def isWhiteSpace_def
  startsWith_def enoent_def isWithin_def

text \<open>
  Claim C6. With the custom path absent or blank (empty or white space only) the result
  is valid and its path is the default directory joined with the default file name. A
  custom path that contains a null character or the text \<open>%00\<close> is invalid. For a
  custom path past these two tests, when neither the target path nor its parent
  directory resolves, the result is invalid and the error text says that the parent
  directory does not exist.
\<close>

theorem validateOutputPath_default_null_parent:
  "((customPath = None \<or> (\<exists>s. customPath = Some s \<and> trim s = [])) \<longrightarrow>
      validateOutputPath cwd realpath customPath defaultName config
        = Inr \<lparr>valid = True, error = None,
               path = Some (join [defaultOutDir config, defaultName])\<rparr>) \<and>
   (\<forall>s. customPath = Some s \<and> (containsText s [CHR 0x00] \<or> containsText s ''%00'') \<longrightarrow>
      (\<exists>r. validateOutputPath cwd realpath customPath defaultName config = Inr r \<and>
           \<not> valid r \<and> error r = Some ''Path contains null bytes'')) \<and>
   (\<forall>s t e1 e2.
      customPath = Some s \<and> trim s \<noteq> [] \<and>
      \<not> containsText s [CHR 0x00] \<and> \<not> containsText s ''%00'' \<and>
      t = targetPath cwd config s \<and> realpath t = Inl e1 \<and> realpath (dirname t) = Inl e2 \<longrightarrow>
      validateOutputPath cwd realpath customPath defaultName config
        = Inr \<lparr>valid = False,
               error = Some (''Parent directory does not exist: '' @ dirname t),
               path = None\<rparr>)"
proof (intro conjI allI impI)
  assume "customPath = None \<or> (\<exists>s. customPath = Some s \<and> trim s = [])"
  then show "validateOutputPath cwd realpath customPath defaultName config
        = Inr \<lparr>valid = True, error = None,
               path = Some (join [defaultOutDir config, defaultName])\<rparr>"
    by (auto simp: validateOutputPath_def path_valid_def)
next
  fix s
  assume a: "customPath = Some s \<and> (containsText s [CHR 0x00] \<or> containsText s ''%00'')"
  then have nb: "trim s \<noteq> []" using nullByte_not_blank by blast
  then have ne: "s \<noteq> []" by (auto simp: trim_def)
  from a have "includesStr s [CHR 0x00] \<or> includesStr s ''%00''"
    by (simp add: includesStr_iff)
  with a nb ne show "\<exists>r. validateOutputPath cwd realpath customPath defaultName config = Inr r \<and>
           \<not> valid r \<and> error r = Some ''Path contains null bytes''"
    by (simp add: validateOutputPath_def path_invalid_def)
next
  fix s t e1 e2
  assume a: "customPath = Some s \<and> trim s \<noteq> [] \<and>
      \<not> containsText s [CHR 0x00] \<and> \<not> containsText s ''%00'' \<and>
      t = targetPath cwd config s \<and> realpath t = Inl e1 \<and> realpath (dirname t) = Inl e2"
  then have ne: "s \<noteq> []" by (auto simp: trim_def)
  from a have ni: "\<not> includesStr s [CHR 0x00]" "\<not> includesStr s ''%00''"
    by (simp_all add: includesStr_iff)
  from a have rt: "realpath t = Inl e1" "realpath (dirname t) = Inl e2"
    and t: "t = targetPath cwd config s"
    by blast+
  have "resolveRealPath realpath t = None"
    by (simp add: resolveRealPath_def rt)
  with a ne ni t show "validateOutputPath cwd realpath customPath defaultName config
        = Inr \<lparr>valid = False,
               error = Some (''Parent directory does not exist: '' @ dirname t),
               path = None\<rparr>"
    by (simp add: validateOutputPath_def path_invalid_def)
qed

theorem validateOutputPath_default_null_parent_witness:
  "validateOutputPath ''/srv'' (buildMockFs []) (Some ''   '') ''screenshot.png'' TEST_CONFIG
     = Inr (path_valid ''/home/user/Desktop/Screenshots/screenshot.png'') \<and>
   (\<exists>r. validateOutputPath ''/srv'' (buildMockFs []) (Some ''/tmp/evil%00.png'') ''default.png''
           TEST_CONFIG = Inr r \<and> \<not> valid r \<and> error r = Some ''Path contains null bytes'') \<and>
   validateOutputPath ''/srv'' (buildMockFs []) (Some ''/nonexistent/dir/file.png'')
       ''default.png'' TEST_CONFIG
     = Inr (path_invalid ''Parent directory does not exist: /nonexistent/dir'')"
proof -
  let ?fs = "buildMockFs []"
  note T = validateOutputPath_default_null_parent
  have 1: "validateOutputPath ''/srv'' ?fs (Some ''   '') ''screenshot.png'' TEST_CONFIG
     = Inr (path_valid ''/home/user/Desktop/Screenshots/screenshot.png'')"
  proof -
    have "\<exists>s. Some ''   '' = Some s \<and> trim s = []"
      by (simp add: trim_def isWhiteSpace_def)
    with T [of "Some ''   ''" "''/srv''" ?fs "''screenshot.png''" TEST_CONFIG]
    have "validateOutputPath ''/srv'' ?fs (Some ''   '') ''screenshot.png'' TEST_CONFIG
        = Inr \<lparr>valid = True, error = None,
               path = Some (join [defaultOutDir TEST_CONFIG, ''screenshot.png''])\<rparr>"
      by blast
    moreover have "join [defaultOutDir TEST_CONFIG, ''screenshot.png'']
        = ''/home/user/Desktop/Screenshots/screenshot.png''"
      by (simp add: path_eval)
    ultimately show ?thesis by (simp add: path_valid_def)
  qed
  have 2: "\<exists>r. validateOutputPath ''/srv'' ?fs (Some ''/tmp/evil%00.png'') ''default.png''
           TEST_CONFIG = Inr r \<and> \<not> valid r \<and> error r = Some ''Path contains null bytes''"
  proof -
    have "''/tmp/evil%00.png'' = ''/tmp/evil'' @ ''%00'' @ ''.png''" by simp
    then have "containsText ''/tmp/evil%00.png'' ''%00''"
      unfolding containsText_def by blast
    with T [of "Some ''/tmp/evil%00.png''" "''/srv''" ?fs "''default.png''" TEST_CONFIG]
    show ?thesis by blast
  qed
  have 3: "validateOutputPath ''/srv'' ?fs (Some ''/nonexistent/dir/file.png'')
       ''default.png'' TEST_CONFIG
     = Inr (path_invalid ''Parent directory does not exist: /nonexistent/dir'')"
  proof -
    let ?s = "''/nonexistent/dir/file.png''"
    have t: "targetPath ''/srv'' TEST_CONFIG ?s = ''/nonexistent/dir/file.png''"
      by (simp add: path_eval)
    have d: "dirname ''/nonexistent/dir/file.png'' = ''/nonexistent/dir''"
      by (simp add: path_eval)
    have r: "?fs ''/nonexistent/dir/file.png'' = Inl (enoent ''/nonexistent/dir/file.png'')"
      "?fs ''/nonexistent/dir'' = Inl (enoent ''/nonexistent/dir'')"
      by (simp_all add: buildMockFs_def createMockFs_def)
    have n: "trim ?s \<noteq> []" "\<not> containsText ?s [CHR 0x00]" "\<not> containsText ?s ''%00''"
      by (simp_all flip: includesStr_iff add: trim_def isWhiteSpace_def startsWith_def)
    from T [of "Some ?s" "''/srv''" ?fs "''default.png''" TEST_CONFIG] t d r n
    have "validateOutputPath ''/srv'' ?fs (Some ?s) ''default.png'' TEST_CONFIG
        = Inr \<lparr>valid = False,
               error = Some (''Parent directory does not exist: '' @ ''/nonexistent/dir''),
               path = None\<rparr>"
      by fastforce
    then show ?thesis by (simp add: path_invalid_def)
  qed
  from 1 2 3 show ?thesis by blast
qed

subsection \<open>Containment\<close>

lemma stripCommon_no_ups:
  "stripCommon xs ys = ([], downs) \<Longrightarrow> take (length xs) ys = xs"
proof (induction xs ys rule: stripCommon.induct)
  case (1 x xs y ys)
  then show ?case by (auto split: if_splits)
qed auto

lemma joinWith_Cons_startsWith: "startsWith (joinWith sep (g # gs)) g"
  by (cases gs) (simp_all add: startsWith_def)

lemma relative_within:
  assumes "\<not> startsWith (relative cwd from to) ''..''"
  shows "isWithin (resolve cwd [from]) (resolve cwd [to])"
proof (cases "from = to \<or> resolve cwd [from] = resolve cwd [to]")
  case True
  then show ?thesis by (auto simp: isWithin_def)
next
  case False
  obtain ups downs where sc:
    "stripCommon (pathSegments (resolve cwd [from])) (pathSegments (resolve cwd [to])) = (ups, downs)"
    by (cases "stripCommon (pathSegments (resolve cwd [from])) (pathSegments (resolve cwd [to]))")
  with False have rel: "relative cwd from to = joinWith (CHR ''/'') (replicate (length ups) ''..'' @ downs)"
    by (simp add: relative_def Let_def)
  have "ups = []"
  proof (rule ccontr)
    assume "ups \<noteq> []"
    then obtain k where "length ups = Suc k" by (cases ups) auto
    then have "relative cwd from to = joinWith (CHR ''/'') (''..'' # (replicate k ''..'' @ downs))"
      using rel by simp
    then have "startsWith (relative cwd from to) ''..''"
      using joinWith_Cons_startsWith by simp
    with assms show False by contradiction
  qed
  with sc show ?thesis
    unfolding isWithin_def using stripCommon_no_ups by blast
qed

text \<open>
  What the test of the loop guarantees: a path that the validator accepts lies, in
  resolved form, within one of the allowed directories in resolved form.
\<close>

lemma withinAllowed_sound:
  assumes "withinAllowed cwd realpath ds p"
  shows "\<exists>d \<in> set ds.
           isWithin (resolve cwd [case realpath d of Inr x \<Rightarrow> x | Inl _ \<Rightarrow> resolve cwd [d]])
                    (resolve cwd [p])"
  using assms
proof (induction ds)
  case Nil
  then show ?case by simp
next
  case (Cons d ds)
  let ?real = "case realpath d of Inr x \<Rightarrow> x | Inl _ \<Rightarrow> resolve cwd [d]"
  show ?case
  proof (cases "\<not> startsWith (relative cwd ?real p) ''..''")
    case True
    from relative_within [OF True] show ?thesis by simp
  next
    case False
    with Cons.prems have "withinAllowed cwd realpath ds p"
      by (simp add: Let_def)
    from Cons.IH [OF this] show ?thesis by auto
  qed
qed

text \<open>
  Claim C5, evaluated. The file name \<open>..a.png\<close> in the allowed directory \<open>/tmp\<close>: the
  file does not exist yet, its parent resolves to itself, the real path is
  \<open>/tmp/..a.png\<close>, a descendant of \<open>/tmp\<close>; the relative path \<open>..a.png\<close> starts with two
  dots and the result is invalid. And the path \<open>/ttmp\<close>, directly under the root: the
  file name is cut after the length of the parent plus one, which drops its first
  character, so that the real path becomes \<open>/tmp\<close> and the result is valid, although
  \<open>/ttmp\<close> is in no allowed directory.
\<close>

theorem validateOutputPath_dotdot_name_rejected:
  "targetPath ''/srv'' TEST_CONFIG ''/tmp/..a.png'' = ''/tmp/..a.png'' \<and>
   resolveRealPath (buildMockFs []) ''/tmp/..a.png'' = Some ''/tmp/..a.png'' \<and>
   buildMockFs [] ''/tmp'' = Inr ''/tmp'' \<and>
   isWithin ''/tmp'' ''/tmp/..a.png'' \<and>
   relative ''/srv'' ''/tmp'' ''/tmp/..a.png'' = ''..a.png'' \<and>
   validateOutputPath ''/srv'' (buildMockFs []) (Some ''/tmp/..a.png'') ''default.png'' TEST_CONFIG
     = Inr (path_invalid outsideMessage) \<and>
   targetPath ''/srv'' TEST_CONFIG ''/ttmp'' = ''/ttmp'' \<and>
   dirname ''/ttmp'' = ''/'' \<and>
   resolveRealPath (buildMockFs [(''/'', Inr ''/'')]) ''/ttmp'' = Some ''/tmp'' \<and>
   \<not> isWithin ''/tmp'' ''/ttmp'' \<and>
   validateOutputPath ''/srv'' (buildMockFs [(''/'', Inr ''/'')]) (Some ''/ttmp'') ''default.png''
       TEST_CONFIG
     = Inr (path_valid ''/tmp'')"
proof -
  have t1: "targetPath ''/srv'' TEST_CONFIG ''/tmp/..a.png'' = ''/tmp/..a.png''"
    by (simp add: path_eval)
  have r1: "resolveRealPath (buildMockFs []) ''/tmp/..a.png'' = Some ''/tmp/..a.png''"
    by (simp add: path_eval)
  have m1: "buildMockFs [] ''/tmp'' = Inr ''/tmp''"
    by (simp add: path_eval)
  have w1: "isWithin ''/tmp'' ''/tmp/..a.png''"
    by (simp add: path_eval)
  have l1: "relative ''/srv'' ''/tmp'' ''/tmp/..a.png'' = ''..a.png''"
    by (simp add: path_eval)
  have a1: "\<not> withinAllowed ''/srv'' (buildMockFs []) (allowedOutputDirs TEST_CONFIG) ''/tmp/..a.png''"
    by (simp add: path_eval)
  have v1: "validateOutputPath ''/srv'' (buildMockFs []) (Some ''/tmp/..a.png'') ''default.png''
      TEST_CONFIG = Inr (path_invalid outsideMessage)"
    using t1 r1 a1 by (simp add: validateOutputPath_def trim_def isWhiteSpace_def startsWith_def)
  have t2: "targetPath ''/srv'' TEST_CONFIG ''/ttmp'' = ''/ttmp''"
    by (simp add: path_eval)
  have d2: "dirname ''/ttmp'' = ''/''"
    by (simp add: path_eval)
  have r2: "resolveRealPath (buildMockFs [(''/'', Inr ''/'')]) ''/ttmp'' = Some ''/tmp''"
    by (simp add: path_eval)
  have w2: "\<not> isWithin ''/tmp'' ''/ttmp''"
    by (simp add: path_eval)
  have a2: "withinAllowed ''/srv'' (buildMockFs [(''/'', Inr ''/'')]) (allowedOutputDirs TEST_CONFIG)
      ''/tmp''"
    by (simp add: path_eval)
  have v2: "validateOutputPath ''/srv'' (buildMockFs [(''/'', Inr ''/'')]) (Some ''/ttmp'')
      ''default.png'' TEST_CONFIG = Inr (path_valid ''/tmp'')"
    using t2 r2 a2 by (simp add: validateOutputPath_def trim_def isWhiteSpace_def startsWith_def)
  from t1 r1 m1 w1 l1 v1 t2 d2 r2 w2 v2 show ?thesis by blast
qed

section \<open>Repeated validation\<close>

text \<open>
  Neither validator keeps state between calls: its result is a function of its
  arguments and of the answers of the injected capability. The external state enters
  only through the answers to the questions asked: the resolver's answer for the
  lower-cased host, and the real paths of the target, of its parent directory and of the
  allowed directories.
\<close>

lemma validateUrl_frame:
  assumes "\<forall>p. newURL urlString = Inr p \<longrightarrow>
             lookup1 (toLowerCase (url_hostname p)) = lookup2 (toLowerCase (url_hostname p))"
  shows "validateUrl newURL lookup1 urlString = validateUrl newURL lookup2 urlString"
proof (cases "newURL urlString")
  case (Inl t)
  then show ?thesis by (simp add: validateUrl_def)
next
  case (Inr p)
  with assms have "resolveAndCheck lookup1 (toLowerCase (url_hostname p))
      = resolveAndCheck lookup2 (toLowerCase (url_hostname p))"
    by (intro resolveAndCheck_cong) simp
  with Inr show ?thesis by (simp add: validateUrl_def Let_def)
qed

lemma validateOutputPath_frame:
  assumes "\<forall>s. customPath = Some s \<longrightarrow>
             rp1 (targetPath cwd config s) = rp2 (targetPath cwd config s) \<and>
             rp1 (dirname (targetPath cwd config s)) = rp2 (dirname (targetPath cwd config s))"
    and "\<forall>d \<in> set (allowedOutputDirs config). rp1 d = rp2 d"
  shows "validateOutputPath cwd rp1 customPath defaultName config
       = validateOutputPath cwd rp2 customPath defaultName config"
proof (cases customPath)
  case None
  then show ?thesis by (simp add: validateOutputPath_def)
next
  case (Some s)
  with assms(1) have "resolveRealPath rp1 (targetPath cwd config s)
      = resolveRealPath rp2 (targetPath cwd config s)"
    by (intro resolveRealPath_cong) simp_all
  moreover have "withinAllowed cwd rp1 (allowedOutputDirs config) p
      = withinAllowed cwd rp2 (allowedOutputDirs config) p" for p
    using assms(2) by (rule withinAllowed_cong)
  ultimately show ?thesis
    using Some by (simp add: validateOutputPath_def Let_def split: option.splits)
qed

text \<open>
  Claim C9. Two calls of a validator on the same input give the same result whenever the
  injected capability answers the questions of that call in the same way both times,
  whatever else has changed; in particular a second call with the external state
  unchanged repeats the result of the first.
\<close>

theorem validators_repeatable:
  "((\<forall>p. newURL urlString = Inr p \<longrightarrow>
        lookup1 (toLowerCase (url_hostname p)) = lookup2 (toLowerCase (url_hostname p))) \<longrightarrow>
    validateUrl newURL lookup1 urlString = validateUrl newURL lookup2 urlString) \<and>
   ((\<forall>s. customPath = Some s \<longrightarrow>
        rp1 (targetPath cwd config s) = rp2 (targetPath cwd config s) \<and>
        rp1 (dirname (targetPath cwd config s)) = rp2 (dirname (targetPath cwd config s))) \<and>
    (\<forall>d \<in> set (allowedOutputDirs config). rp1 d = rp2 d) \<longrightarrow>
    validateOutputPath cwd rp1 customPath defaultName config
      = validateOutputPath cwd rp2 customPath defaultName config)"
  using validateUrl_frame validateOutputPath_frame by blast

text \<open>
  Two resolvers that agree on \<open>example.com\<close> and differ on \<open>localhost\<close>, and two file
  systems that agree on \<open>/tmp/shot.png\<close>, on \<open>/tmp\<close> and on the allowed directories and
  differ on \<open>/var\<close>.
\<close>

theorem validators_repeatable_witness:
  "createMockDns publicDns ''localhost'' \<noteq> createMockDns [] ''localhost'' \<and>
   validateUrl (urlTable knownUrls) (createMockDns publicDns) ''https://example.com''
     = validateUrl (urlTable knownUrls)
         (createMockDns [(''example.com'', [\<lparr>address = ''93.184.216.34'', family = 4\<rparr>])])
         ''https://example.com'' \<and>
   buildMockFs [(''/var'', Inr ''/private/var'')] ''/var'' \<noteq> buildMockFs [] ''/var'' \<and>
   validateOutputPath ''/srv'' (buildMockFs [(''/var'', Inr ''/private/var'')])
       (Some ''/tmp/shot.png'') ''default.png'' TEST_CONFIG
     = validateOutputPath ''/srv'' (buildMockFs []) (Some ''/tmp/shot.png'') ''default.png''
         TEST_CONFIG"
proof -
  let ?D1 = "createMockDns publicDns"
  let ?D2 = "createMockDns [(''example.com'', [\<lparr>address = ''93.184.216.34'', family = 4\<rparr>])]"
  let ?F1 = "buildMockFs [(''/var'', Inr ''/private/var'')]"
  let ?F2 = "buildMockFs []"
  have d: "?D1 ''localhost'' \<noteq> createMockDns [] ''localhost''"
    by (simp add: createMockDns_def publicDns_def)
  have f: "?F1 ''/var'' \<noteq> ?F2 ''/var''"
    by (simp add: buildMockFs_def createMockFs_def)
  have u: "\<forall>p. urlTable knownUrls ''https://example.com'' = Inr p \<longrightarrow>
             ?D1 (toLowerCase (url_hostname p)) = ?D2 (toLowerCase (url_hostname p))"
    by (simp add: urlTable_def knownUrls_def createMockDns_def publicDns_def toLowerCase_def
        toLowerCaseChar_def)
  have t: "targetPath ''/srv'' TEST_CONFIG ''/tmp/shot.png'' = ''/tmp/shot.png''"
    and n: "dirname ''/tmp/shot.png'' = ''/tmp''"
    by (simp_all add: path_eval)
  have p: "\<forall>s. Some ''/tmp/shot.png'' = Some s \<longrightarrow>
        ?F1 (targetPath ''/srv'' TEST_CONFIG s) = ?F2 (targetPath ''/srv'' TEST_CONFIG s) \<and>
        ?F1 (dirname (targetPath ''/srv'' TEST_CONFIG s))
          = ?F2 (dirname (targetPath ''/srv'' TEST_CONFIG s))"
    by (simp add: t n) (simp add: buildMockFs_def createMockFs_def)
  have a: "\<forall>d \<in> set (allowedOutputDirs TEST_CONFIG). ?F1 d = ?F2 d"
    by (simp add: TEST_CONFIG_def buildMockFs_def createMockFs_def)
  from validators_repeatable [of "urlTable knownUrls" "''https://example.com''" ?D1 ?D2
      "Some ''/tmp/shot.png''" ?F1 "''/srv''" TEST_CONFIG ?F2 "''default.png''"] u p a
  have "validateUrl (urlTable knownUrls) ?D1 ''https://example.com''
          = validateUrl (urlTable knownUrls) ?D2 ''https://example.com'' \<and>
        validateOutputPath ''/srv'' ?F1 (Some ''/tmp/shot.png'') ''default.png'' TEST_CONFIG
          = validateOutputPath ''/srv'' ?F2 (Some ''/tmp/shot.png'') ''default.png'' TEST_CONFIG"
    by blast
  with d f show ?thesis by blast
qed

end
